theory Spec2Isabelle
  imports Complex_Main "HOL-Library.Sublist" "HOL-Library.Multiset"
begin

section \<open>JavaScript values\<close>

text \<open>
  The gene heatmap pipeline (\<open>processExcelFile\<close> and its neighbours in the
  \<open>ClusteredHeatmap\<close> component) is written in JavaScript, so a cell of the decoded
  sheet, a gene identifier and a category label are dynamically typed values. Numbers
  are idealised: a finite double is the real number it denotes (rounding and overflow
  are not modelled), and \<open>NaN\<close> and the two infinities are values of their own.
  Strings are lists of characters; a \<open>char\<close> stands for a UTF-16 code unit below
  256, so the white space and case tables below are the Latin-1 part of the tables of
  the language.
\<close>

datatype number = NaN | Fin real | PosInf | NegInf

datatype jsval = Undefined | Null | Num number | Str string

text \<open>ToBoolean, as used by \<open>!x\<close> and \<open>a || b\<close>.\<close>

fun truthy :: "jsval \<Rightarrow> bool" where
  "truthy Undefined = False"
| "truthy Null = False"
| "truthy (Num NaN) = False"
| "truthy (Num (Fin r)) = (r \<noteq> 0)"
| "truthy (Num PosInf) = True"
| "truthy (Num NegInf) = True"
| "truthy (Str s) = (s \<noteq> [])"

definition jsOr :: "jsval \<Rightarrow> jsval \<Rightarrow> jsval" where
  "jsOr a b = (if truthy a then a else b)"

text \<open>Strict equality \<open>===\<close>: no coercion, and \<open>NaN\<close> differs from itself.\<close>

definition strictEq :: "jsval \<Rightarrow> jsval \<Rightarrow> bool" where
  "strictEq a b = (a = b \<and> a \<noteq> Num NaN)"

subsection \<open>Strings\<close>

text \<open>White space and line terminators (\<open>\s\<close>, \<open>trim\<close>, the dot of a regular expression).\<close>

definition isWhiteSpace :: "char \<Rightarrow> bool" where
  "isWhiteSpace c = ((of_char c :: nat) \<in> {9, 10, 11, 12, 13, 32, 160})"

definition isLineTerminator :: "char \<Rightarrow> bool" where
  "isLineTerminator c = ((of_char c :: nat) \<in> {10, 13})"

definition trim :: "string \<Rightarrow> string" where
  "trim s = rev (dropWhile isWhiteSpace (rev (dropWhile isWhiteSpace s)))"

definition toUpperChar :: "char \<Rightarrow> char" where
  "toUpperChar c =
     (let n = (of_char c :: nat) in
      if (97 \<le> n \<and> n \<le> 122) \<or> (224 \<le> n \<and> n \<le> 254 \<and> n \<noteq> 247)
      then char_of (n - 32) else c)"

definition toLowerChar :: "char \<Rightarrow> char" where
  "toLowerChar c =
     (let n = (of_char c :: nat) in
      if (65 \<le> n \<and> n \<le> 90) \<or> (192 \<le> n \<and> n \<le> 222 \<and> n \<noteq> 215)
      then char_of (n + 32) else c)"

definition toLowerCase :: "string \<Rightarrow> string" where
  "toLowerCase s = map toLowerChar s"

fun startsWith :: "string \<Rightarrow> string \<Rightarrow> bool" where
  "startsWith s [] = True"
| "startsWith [] (p # ps) = False"
| "startsWith (c # cs) (p # ps) = (c = p \<and> startsWith cs ps)"

fun includesStr :: "string \<Rightarrow> string \<Rightarrow> bool" where
  "includesStr [] t = (t = [])"
| "includesStr (c # cs) t = (startsWith (c # cs) t \<or> includesStr cs t)"

subsection \<open>Objects\<close>

text \<open>
  A row of the decoded sheet is an object: its own keys in the order \<open>Object.keys\<close>
  lists them, each with its value. Reading a key the object does not have gives
  \<open>undefined\<close>; writing a key it has replaces the value where it stands, and
  writing a new key appends it.
\<close>

type_synonym 'a obj = "(string \<times> 'a) list"

type_synonym row = "jsval obj"

definition objectKeys :: "'a obj \<Rightarrow> string list" where
  "objectKeys obj = map fst obj"

definition getProp :: "row \<Rightarrow> string \<Rightarrow> jsval" where
  "getProp obj k = (case map_of obj k of None \<Rightarrow> Undefined | Some v \<Rightarrow> v)"

fun setProp :: "'a obj \<Rightarrow> string \<Rightarrow> 'a \<Rightarrow> 'a obj" where
  "setProp [] k v = [(k, v)]"
| "setProp ((k', v') # rest) k v =
     (if k' = k then (k, v) # rest else (k', v') # setProp rest k v)"

section \<open>Schema detection\<close>

text \<open>
  The two header patterns are \<open>/^Log2FC\s*\((.+)\)$/i\<close> and
  \<open>/^P value\s*\((.+)\)$/i\<close>: the marker compared case-insensitively, any white
  space, an opening parenthesis, one or more characters other than line terminators,
  and a closing parenthesis at the end of the header. \<open>matchPattern\<close> returns the
  capture group of a match.
\<close>

definition matchPattern :: "string \<Rightarrow> string \<Rightarrow> string option" where
  "matchPattern marker h =
     (if length marker \<le> length h
         \<and> map toUpperChar (take (length marker) h) = map toUpperChar marker
      then (case dropWhile isWhiteSpace (drop (length marker) h) of
              [] \<Rightarrow> None
            | c # rest \<Rightarrow>
                if c = CHR ''('' \<and> rest \<noteq> [] \<and> last rest = CHR '')''
                   \<and> butlast rest \<noteq> [] \<and> \<not> list_ex isLineTerminator (butlast rest)
                then Some (butlast rest) else None)
      else None)"

definition comparisonPattern :: "string \<Rightarrow> string option" where
  "comparisonPattern h = matchPattern ''Log2FC'' h"

definition pValuePattern :: "string \<Rightarrow> string option" where
  "pValuePattern h = matchPattern ''P value'' h"

definition test :: "(string \<Rightarrow> string option) \<Rightarrow> string \<Rightarrow> bool" where
  "test pat h = (pat h \<noteq> None)"

definition shortName :: "string \<Rightarrow> string" where
  "shortName h = (case comparisonPattern h of Some m \<Rightarrow> trim m | None \<Rightarrow> h)"


section \<open>Numbers of cells\<close>

text \<open>
  \<open>parseFloat\<close> turns its argument into a string and reads the longest prefix that
  is a decimal literal, after leading white space: an optional sign, then
  \<open>Infinity\<close>, or digits with an optional fraction and an optional exponent. No
  such prefix gives \<open>NaN\<close>. A number printed and read again is the same number.
\<close>

definition isDigit :: "char \<Rightarrow> bool" where
  "isDigit c = (48 \<le> (of_char c :: nat) \<and> (of_char c :: nat) \<le> 57)"

definition digitsValue :: "string \<Rightarrow> nat" where
  "digitsValue ds = foldl (\<lambda>a c. 10 * a + ((of_char c :: nat) - 48)) 0 ds"

definition exponentPart :: "string \<Rightarrow> int" where
  "exponentPart s =
     (case s of
        [] \<Rightarrow> 0
      | c # r \<Rightarrow>
          if c = CHR ''e'' \<or> c = CHR ''E'' then
            (let neg = (r \<noteq> [] \<and> hd r = CHR ''-'');
                 d = (if r \<noteq> [] \<and> (hd r = CHR ''-'' \<or> hd r = CHR ''+'') then tl r else r);
                 ds = takeWhile isDigit d
             in if ds = [] then 0
                else if neg then - int (digitsValue ds) else int (digitsValue ds))
          else 0)"

definition scale10 :: "real \<Rightarrow> int \<Rightarrow> real" where
  "scale10 m e = (if 0 \<le> e then m * 10 ^ nat e else m / 10 ^ nat (- e))"

definition parseFloatString :: "string \<Rightarrow> number" where
  "parseFloatString s =
     (let t = dropWhile isWhiteSpace s;
          neg = (t \<noteq> [] \<and> hd t = CHR ''-'');
          u = (if t \<noteq> [] \<and> (hd t = CHR ''-'' \<or> hd t = CHR ''+'') then tl t else t)
      in if startsWith u ''Infinity'' then (if neg then NegInf else PosInf)
         else
           (let ip = takeWhile isDigit u;
                r1 = dropWhile isDigit u;
                dot = (r1 \<noteq> [] \<and> hd r1 = CHR ''.'');
                fp = (if dot then takeWhile isDigit (tl r1) else []);
                r2 = (if dot then dropWhile isDigit (tl r1) else r1)
            in if ip = [] \<and> fp = [] then NaN
               else
                 (let m = real (digitsValue (ip @ fp)) / 10 ^ length fp;
                      v = scale10 m (exponentPart r2)
                  in Fin (if neg then - v else v))))"

fun parseFloat :: "jsval \<Rightarrow> number" where
  "parseFloat (Num n) = n"
| "parseFloat (Str s) = parseFloatString s"
| "parseFloat Undefined = NaN"
| "parseFloat Null = NaN"

text \<open>
  A number used as a property key is printed first. \<open>numberToString\<close> prints plain
  decimal notation, which is what the language prints for an integer below \<open>10^21\<close>
  and for a short decimal fraction; the exponent notation of very large and very small
  numbers is not modelled.
\<close>

fun natToString :: "nat \<Rightarrow> string" where
  "natToString n =
     (if n < 10 then [char_of (48 + n)]
      else natToString (n div 10) @ [char_of (48 + n mod 10)])"

declare natToString.simps [simp del]

fun fracDigits :: "nat \<Rightarrow> real \<Rightarrow> string" where
  "fracDigits 0 f = []"
| "fracDigits (Suc k) f =
     (if f = 0 then []
      else char_of (48 + nat \<lfloor>10 * f\<rfloor>) # fracDigits k (10 * f - real_of_int \<lfloor>10 * f\<rfloor>))"

fun numberToString :: "number \<Rightarrow> string" where
  "numberToString NaN = ''NaN''"
| "numberToString PosInf = ''Infinity''"
| "numberToString NegInf = ''-Infinity''"
| "numberToString (Fin r) =
     (if r < 0 then ''-'' else []) @ natToString (nat \<lfloor>\<bar>r\<bar>\<rfloor>)
     @ (if \<bar>r\<bar> = real_of_int \<lfloor>\<bar>r\<bar>\<rfloor> then []
        else ''.'' @ fracDigits 20 (\<bar>r\<bar> - real_of_int \<lfloor>\<bar>r\<bar>\<rfloor>))"

fun toPropertyKey :: "jsval \<Rightarrow> string" where
  "toPropertyKey (Str s) = s"
| "toPropertyKey (Num n) = numberToString n"
| "toPropertyKey Undefined = ''undefined''"
| "toPropertyKey Null = ''null''"

text \<open>
  An entry of \<open>gene.values\<close> or \<open>gene.pValues\<close> is \<open>null\<close> or a number, and
  reading past the end of the array gives \<open>undefined\<close>. In arithmetic and in
  comparisons \<open>null\<close> counts as 0 and \<open>undefined\<close> as \<open>NaN\<close>.
\<close>

datatype numeric = Undef | Nul | Val number

fun toNumber :: "numeric \<Rightarrow> number" where
  "toNumber Undef = NaN"
| "toNumber Nul = Fin 0"
| "toNumber (Val n) = n"

definition elemAt :: "numeric list \<Rightarrow> nat \<Rightarrow> numeric" where
  "elemAt xs i = (if i < length xs then xs ! i else Undef)"

fun numSub :: "number \<Rightarrow> number \<Rightarrow> number" where
  "numSub NaN b = NaN"
| "numSub (Fin a) NaN = NaN"
| "numSub (Fin a) (Fin b) = Fin (a - b)"
| "numSub (Fin a) PosInf = NegInf"
| "numSub (Fin a) NegInf = PosInf"
| "numSub PosInf NaN = NaN"
| "numSub PosInf (Fin b) = PosInf"
| "numSub PosInf PosInf = NaN"
| "numSub PosInf NegInf = PosInf"
| "numSub NegInf NaN = NaN"
| "numSub NegInf (Fin b) = NegInf"
| "numSub NegInf PosInf = NegInf"
| "numSub NegInf NegInf = NaN"

text \<open>\<open>a < b\<close> and \<open>a >= b\<close> on numbers: both are false when either side is \<open>NaN\<close>.\<close>

fun numLess :: "number \<Rightarrow> number \<Rightarrow> bool" where
  "numLess NaN b = False"
| "numLess (Fin a) NaN = False"
| "numLess (Fin a) (Fin b) = (a < b)"
| "numLess (Fin a) PosInf = True"
| "numLess (Fin a) NegInf = False"
| "numLess PosInf b = False"
| "numLess NegInf NaN = False"
| "numLess NegInf (Fin b) = True"
| "numLess NegInf PosInf = True"
| "numLess NegInf NegInf = False"

definition numGreaterEq :: "number \<Rightarrow> number \<Rightarrow> bool" where
  "numGreaterEq a b = (a \<noteq> NaN \<and> b \<noteq> NaN \<and> \<not> numLess a b)"

section \<open>The dataset\<close>

text \<open>
  The fields \<open>id\<close> and \<open>values\<close> of a gene are \<open>geneId\<close> and \<open>geneValues\<close> here,
  and the fields \<open>category\<close> and \<open>count\<close> of a category group are
  \<open>groupCategory\<close> and \<open>groupCount\<close>.
\<close>

record gene =
  geneId :: jsval
  category :: jsval
  geneValues :: "numeric list"
  pValues :: "numeric list"

record categoryGroup =
  groupCategory :: jsval
  startIndex :: int
  endIndex :: int
  groupCount :: int

record dataset =
  genes :: "gene list"
  comparisons :: "string list"
  comparisonColumns :: "string list"
  pValueColumns :: "string list"
  categoryGroups :: "categoryGroup list"
  categories :: "jsval list"

datatype error =
    NoDataFound
  | NoHeadersFound
  | NoComparisonColumns
  | NoValidGeneData

datatype errorKind = SchemaError | DataError

text \<open>
  The code raises plain errors told apart by their messages: no data in the sheet and no
  valid gene data are errors about the rows, no headers and no comparison columns are
  errors about the columns.
\<close>

fun kindOf :: "error \<Rightarrow> errorKind" where
  "kindOf NoDataFound = DataError"
| "kindOf NoValidGeneData = DataError"
| "kindOf NoHeadersFound = SchemaError"
| "kindOf NoComparisonColumns = SchemaError"


section \<open>Validating rows\<close>

text \<open>
  Each row of the sheet is read in turn (the body of \<open>rawData.forEach\<close>). The
  identifier is the first of \<open>Gene ID\<close>, \<open>GeneID\<close> and \<open>gene_id\<close> that is
  truthy, trimmed when it is a string; a row whose identifier is falsy after that is
  skipped. A cell that is missing or empty gives \<open>null\<close>, any other cell goes through
  \<open>parseFloat\<close>. With no category column the code reads \<open>gene[undefined]\<close>, the
  property named \<open>undefined\<close>.
\<close>

definition geneIdOf :: "row \<Rightarrow> jsval" where
  "geneIdOf gene =
     (case jsOr (jsOr (getProp gene ''Gene ID'') (getProp gene ''GeneID''))
                (getProp gene ''gene_id'') of
        Str s \<Rightarrow> Str (trim s)
      | v \<Rightarrow> v)"

definition cellNumber :: "jsval \<Rightarrow> numeric" where
  "cellNumber val =
     (if val \<noteq> Undefined \<and> val \<noteq> Null \<and> val \<noteq> Str [] then Val (parseFloat val) else Nul)"

definition categoryKey :: "string option \<Rightarrow> string" where
  "categoryKey categoryCol = (case categoryCol of None \<Rightarrow> ''undefined'' | Some h \<Rightarrow> h)"

definition rowGenes :: "string list \<Rightarrow> string list \<Rightarrow> string option \<Rightarrow> row \<Rightarrow> gene list" where
  "rowGenes comps pCols categoryCol gene =
     (if \<not> truthy (geneIdOf gene) then []
      else [\<lparr> geneId = geneIdOf gene,
              category = jsOr (getProp gene (categoryKey categoryCol)) (Str ''Uncategorized''),
              geneValues = map (\<lambda>comp. cellNumber (getProp gene comp)) comps,
              pValues = map (\<lambda>comp. cellNumber (getProp gene comp)) pCols \<rparr>])"

definition validateRows :: "string list \<Rightarrow> string list \<Rightarrow> string option \<Rightarrow> row list \<Rightarrow> gene list" where
  "validateRows comps pCols categoryCol rawData =
     concat (map (rowGenes comps pCols categoryCol) rawData)"

section \<open>Grouping and sorting\<close>

text \<open>
  \<open>[...new Set(xs)]\<close>: the distinct values of \<open>xs\<close> in the order of their first
  occurrence.
\<close>

definition distinctInOrder :: "jsval list \<Rightarrow> jsval list" where
  "distinctInOrder xs = fold (\<lambda>x acc. if x \<in> set acc then acc else acc @ [x]) xs []"

text \<open>
  \<open>groupedByCategory\<close> is a plain object, so a category is turned into a property key
  when it is written and read.
\<close>

definition groupStep :: "gene list \<Rightarrow> jsval \<Rightarrow> gene list obj \<Rightarrow> gene list obj" where
  "groupStep geneData c grouped =
     (let genesInCategory = filter (\<lambda>gene. strictEq (category gene) c) geneData
      in if 0 < length genesInCategory
         then setProp grouped (toPropertyKey c) genesInCategory
         else grouped)"

definition groupByCategory :: "jsval list \<Rightarrow> gene list \<Rightarrow> gene list obj" where
  "groupByCategory cats geneData = fold (groupStep geneData) cats []"

text \<open>
  The comparator is \<open>a.values[0] - b.values[0]\<close>. \<open>Array.prototype.sort\<close> is
  stable and takes a comparator result of \<open>NaN\<close> as 0; for a comparator that is not a
  consistent order the language leaves the order to the engine, and the insertion sort
  below is one such order.
\<close>

definition compareFn :: "gene \<Rightarrow> gene \<Rightarrow> number" where
  "compareFn a b = numSub (toNumber (elemAt (geneValues a) 0)) (toNumber (elemAt (geneValues b) 0))"

fun insertGene :: "gene \<Rightarrow> gene list \<Rightarrow> gene list" where
  "insertGene x [] = [x]"
| "insertGene x (y # ys) =
     (if numLess (Fin 0) (compareFn x y) then y # insertGene x ys else x # y # ys)"

definition sortGenes :: "gene list \<Rightarrow> gene list" where
  "sortGenes xs = foldr insertGene xs []"

text \<open>
  The second \<open>categories.forEach\<close>: the array stored under the key of the category is
  sorted in place and appended to \<open>sortedGeneData\<close>.
\<close>

definition sortStep :: "jsval \<Rightarrow> gene list obj \<times> gene list \<Rightarrow> gene list obj \<times> gene list" where
  "sortStep c st =
     (case map_of (fst st) (toPropertyKey c) of
        None \<Rightarrow> st
      | Some categoryGenes \<Rightarrow>
          (setProp (fst st) (toPropertyKey c) (sortGenes categoryGenes),
           snd st @ sortGenes categoryGenes))"

definition sortWithinCategories :: "jsval list \<Rightarrow> gene list obj \<Rightarrow> gene list" where
  "sortWithinCategories cats grouped = snd (fold sortStep cats (grouped, []))"

definition groupAndSort :: "gene list \<Rightarrow> gene list" where
  "groupAndSort geneData =
     (let cats = distinctInOrder (map category geneData)
      in sortWithinCategories cats (groupByCategory cats geneData))"

section \<open>Category groups\<close>

text \<open>
  The scan of \<open>sortedGeneData.forEach((gene, index) => ...)\<close>, with its three
  variables \<open>currentCategory\<close>, \<open>startIndex\<close> and \<open>categoryGroups\<close> as the state,
  followed by the push of the last group.
\<close>

fun scanCategories ::
  "gene list \<Rightarrow> int \<Rightarrow> jsval \<times> int \<times> categoryGroup list \<Rightarrow> jsval \<times> int \<times> categoryGroup list" where
  "scanCategories [] index st = st"
| "scanCategories (gene # rest) index (cur, start, acc) =
     (if \<not> strictEq (category gene) cur
      then scanCategories rest (index + 1)
             (category gene, index,
              if cur \<noteq> Null
              then acc @ [\<lparr> groupCategory = cur, startIndex = start,
                            endIndex = index - 1, groupCount = index - start \<rparr>]
              else acc)
      else scanCategories rest (index + 1) (cur, start, acc))"

definition buildCategoryGroups :: "gene list \<Rightarrow> categoryGroup list" where
  "buildCategoryGroups sortedGeneData =
     (case scanCategories sortedGeneData 0 (Null, 0, []) of
        (cur, start, acc) \<Rightarrow>
          if cur \<noteq> Null
          then acc @ [\<lparr> groupCategory = cur, startIndex = start,
                        endIndex = int (length sortedGeneData) - 1,
                        groupCount = int (length sortedGeneData) - start \<rparr>]
          else acc)"

section \<open>The pipeline\<close>

text \<open>
  \<open>processExcelFile\<close> from the decoded sheet on: \<open>rawData\<close> is the result of
  \<open>XLSX.utils.sheet_to_json\<close>. A thrown error ends in \<open>setError\<close> and no dataset
  (\<open>Inl\<close>); otherwise \<open>setData\<close> receives the dataset (\<open>Inr\<close>). The array
  \<open>missingGenes\<close> is never written, so the check on it cannot fire.

  The repository holds three versions of the component. The one modelled here is the
  version that validates rows and raises errors. The two older versions, among them
  \<open>src/ClusteredHeatmap.js\<close>, have the same grouping, sorting and scan for category
  groups, and none of the checks on empty sheets, headers, comparison columns and
  identifiers.
\<close>

definition findCategoryCol :: "string list \<Rightarrow> string option" where
  "findCategoryCol headers = List.find (\<lambda>h. includesStr (toLowerCase h) ''category'') headers"

definition processExcelFile :: "row list \<Rightarrow> error + dataset" where
  "processExcelFile rawData =
     (if rawData = [] then Inl NoDataFound
      else
        let headers = objectKeys (hd rawData) in
        if headers = [] then Inl NoHeadersFound
        else
          let comps = filter (test comparisonPattern) headers in
          if comps = [] then Inl NoComparisonColumns
          else
            let shortNames = map shortName comps;
                pCols = filter (test pValuePattern) headers;
                categoryCol = findCategoryCol headers;
                geneData = validateRows comps pCols categoryCol rawData
            in if geneData = [] then Inl NoValidGeneData
               else
                 let sortedGeneData = groupAndSort geneData
                 in Inr \<lparr> genes = sortedGeneData,
                          comparisons = shortNames,
                          comparisonColumns = comps,
                          pValueColumns = pCols,
                          categoryGroups = buildCategoryGroups sortedGeneData,
                          categories = distinctInOrder (map category sortedGeneData) \<rparr>)"


section \<open>Significance markers\<close>

text \<open>
  \<open>getSizeForPValue\<close>, and the lines of \<open>renderHeatmap\<close> that decide for the
  cell of comparison \<open>j\<close> whether a circle is drawn, with which radius and in which
  colour. The p-value is \<open>gene.pValues[j]\<close>.
\<close>

definition getSizeForPValue :: "numeric \<Rightarrow> int" where
  "getSizeForPValue pValue =
     (if numGreaterEq (toNumber pValue) (Fin 0.05) then 0
      else if numLess (toNumber pValue) (Fin 0.01) then 5
      else 3)"

definition isSignificant :: "numeric \<Rightarrow> bool" where
  "isSignificant pValue = numLess (toNumber pValue) (Fin 0.05)"

definition isMarginal :: "numeric \<Rightarrow> bool" where
  "isMarginal pValue =
     (numGreaterEq (toNumber pValue) (Fin 0.05) \<and> numLess (toNumber pValue) (Fin 0.1))"

definition circleRadius :: "numeric \<Rightarrow> int" where
  "circleRadius pValue =
     (if isSignificant pValue then getSizeForPValue pValue
      else if isMarginal pValue then 2 else 0)"

text \<open>The circle of a cell, as radius and fill colour, or \<open>None\<close> when none is drawn.\<close>

definition significanceCircle :: "numeric \<Rightarrow> (int \<times> string) option" where
  "significanceCircle pValue =
     (if isSignificant pValue \<or> isMarginal pValue
      then Some (circleRadius pValue, if isSignificant pValue then ''black'' else ''#888'')
      else None)"

definition cellCircle :: "gene \<Rightarrow> nat \<Rightarrow> (int \<times> string) option" where
  "cellCircle gene j = significanceCircle (elemAt (pValues gene) j)"

section \<open>Export\<close>

text \<open>
  \<open>downloadProcessedData\<close> up to the call of \<open>json_to_sheet\<close>: the header list
  and one object per gene. A value that is \<open>null\<close> or \<open>undefined\<close> is written as
  the text \<open>N/A\<close>; \<open>log2fc[i]\<close> and \<open>pvals[i]\<close> past the end of their array are
  \<open>undefined\<close>.
\<close>

definition exportCell :: "numeric \<Rightarrow> jsval" where
  "exportCell v = (case v of Val n \<Rightarrow> Num n | _ \<Rightarrow> Str ''N/A'')"

definition cellAt :: "jsval list \<Rightarrow> nat \<Rightarrow> jsval" where
  "cellAt xs i = (if i < length xs then xs ! i else Undefined)"

definition exportHeaders :: "dataset \<Rightarrow> string list" where
  "exportHeaders d =
     [''Gene ID'', ''Category'']
     @ map (\<lambda>name. ''Log2FC ('' @ name @ '')'') (comparisons d)
     @ map (\<lambda>name. ''P-value ('' @ name @ '')'') (comparisons d)"

definition exportRow :: "string list \<Rightarrow> gene \<Rightarrow> row" where
  "exportRow names gene =
     (let log2fc = map exportCell (geneValues gene);
          pvals = map exportCell (pValues gene)
      in fold (\<lambda>(name, i) obj.
                 setProp (setProp obj (''Log2FC ('' @ name @ '')'') (cellAt log2fc i))
                         (''P-value ('' @ name @ '')'') (cellAt pvals i))
              (zip names [0 ..< length names])
              [(''Gene ID'', geneId gene), (''Category'', category gene)])"

definition downloadProcessedData :: "dataset \<Rightarrow> string list \<times> row list" where
  "downloadProcessedData d = (exportHeaders d, map (exportRow (comparisons d)) (genes d))"

section \<open>Coercion to numbers\<close>

text \<open>
  ToNumber on a string: white space is trimmed at both ends; the empty string is 0; the
  rest must be, as a whole, a decimal literal (optional sign, \<open>Infinity\<close>, or digits
  with an optional fraction and exponent) or an unsigned binary, octal or hexadecimal
  integer literal; anything else is \<open>NaN\<close>.
\<close>

definition digitOf :: "char \<Rightarrow> nat" where
  "digitOf c =
     (let n = (of_char c :: nat) in
      if 48 \<le> n \<and> n \<le> 57 then n - 48
      else if 97 \<le> n \<and> n \<le> 102 then n - 87
      else if 65 \<le> n \<and> n \<le> 70 then n - 55
      else 0)"

definition isDigitOfBase :: "nat \<Rightarrow> char \<Rightarrow> bool" where
  "isDigitOfBase b c =
     (let n = (of_char c :: nat) in
      ((48 \<le> n \<and> n \<le> 57) \<or> (97 \<le> n \<and> n \<le> 102) \<or> (65 \<le> n \<and> n \<le> 70))
      \<and> digitOf c < b)"

definition digitsValueOfBase :: "nat \<Rightarrow> string \<Rightarrow> nat" where
  "digitsValueOfBase b ds = foldl (\<lambda>a c. b * a + digitOf c) 0 ds"

definition nonDecimalLiteral :: "string \<Rightarrow> number option" where
  "nonDecimalLiteral t =
     (case t of
        c0 # c1 # ds \<Rightarrow>
          (let b = (if c1 = CHR ''x'' \<or> c1 = CHR ''X'' then 16
                    else if c1 = CHR ''o'' \<or> c1 = CHR ''O'' then 8
                    else if c1 = CHR ''b'' \<or> c1 = CHR ''B'' then 2
                    else (0::nat))
           in if c0 = CHR ''0'' \<and> b \<noteq> 0 \<and> ds \<noteq> [] \<and> list_all (isDigitOfBase b) ds
              then Some (Fin (real (digitsValueOfBase b ds)))
              else None)
      | _ \<Rightarrow> None)"

definition wholeExponent :: "string \<Rightarrow> int option" where
  "wholeExponent s =
     (case s of
        [] \<Rightarrow> Some 0
      | c # r \<Rightarrow>
          if c = CHR ''e'' \<or> c = CHR ''E'' then
            (let neg = (r \<noteq> [] \<and> hd r = CHR ''-'');
                 d = (if r \<noteq> [] \<and> (hd r = CHR ''-'' \<or> hd r = CHR ''+'') then tl r else r)
             in if d \<noteq> [] \<and> list_all isDigit d
                then Some (if neg then - int (digitsValue d) else int (digitsValue d))
                else None)
          else None)"

definition decimalLiteral :: "string \<Rightarrow> number" where
  "decimalLiteral t =
     (let neg = (t \<noteq> [] \<and> hd t = CHR ''-'');
          u = (if t \<noteq> [] \<and> (hd t = CHR ''-'' \<or> hd t = CHR ''+'') then tl t else t)
      in if u = ''Infinity'' then (if neg then NegInf else PosInf)
         else
           (let ip = takeWhile isDigit u;
                r1 = dropWhile isDigit u;
                dot = (r1 \<noteq> [] \<and> hd r1 = CHR ''.'');
                fp = (if dot then takeWhile isDigit (tl r1) else []);
                r2 = (if dot then dropWhile isDigit (tl r1) else r1)
            in if ip = [] \<and> fp = [] then NaN
               else
                 (case wholeExponent r2 of
                    None \<Rightarrow> NaN
                  | Some e \<Rightarrow>
                      (let m = real (digitsValue (ip @ fp)) / 10 ^ length fp;
                           v = scale10 m e
                       in Fin (if neg then - v else v)))))"

definition stringToNumber :: "string \<Rightarrow> number" where
  "stringToNumber s =
     (let t = trim s
      in if t = [] then Fin 0
         else (case nonDecimalLiteral t of
                 Some n \<Rightarrow> n
               | None \<Rightarrow> decimalLiteral t))"

fun jsToNumber :: "jsval \<Rightarrow> number" where
  "jsToNumber Undefined = NaN"
| "jsToNumber Null = Fin 0"
| "jsToNumber (Num n) = n"
| "jsToNumber (Str s) = stringToNumber s"

section \<open>The copy without validation\<close>

text \<open>
  \<open>processExcelFile\<close> of \<open>src/ClusteredHeatmap.js\<close>, the copy that \<open>src/App.js\<close>
  imports. It has no check on the sheet, the headers, the comparison columns or the
  identifiers: every row becomes a gene, with the raw cells as its values, and
  \<open>setData\<close> is always reached. Its fields are named with the prefix \<open>raw\<close> here.
  Calling \<open>sort\<close> on a missing property would raise a type error.
\<close>

record rawGene =
  rawId :: jsval
  rawCategory :: jsval
  rawValues :: "jsval list"
  rawPValues :: "jsval list"

record rawDataset =
  rawGenes :: "rawGene list"
  rawComparisons :: "string list"
  rawComparisonColumns :: "string list"
  rawPValueColumns :: "string list"
  rawCategoryGroups :: "categoryGroup list"

datatype rawError = TypeError

definition rawRowGene :: "string list \<Rightarrow> string list \<Rightarrow> string option \<Rightarrow> row \<Rightarrow> rawGene" where
  "rawRowGene comps pCols categoryCol gene =
     \<lparr> rawId = getProp gene ''Gene ID'',
       rawCategory = jsOr (getProp gene (categoryKey categoryCol)) (Str ''Uncategorized''),
       rawValues = map (\<lambda>comp. getProp gene comp) comps,
       rawPValues = map (\<lambda>comp. getProp gene comp) pCols \<rparr>"

definition rawGroupStep :: "rawGene list \<Rightarrow> jsval \<Rightarrow> rawGene list obj \<Rightarrow> rawGene list obj" where
  "rawGroupStep geneData c grouped =
     setProp grouped (toPropertyKey c) (filter (\<lambda>gene. strictEq (rawCategory gene) c) geneData)"

definition rawCompareFn :: "rawGene \<Rightarrow> rawGene \<Rightarrow> number" where
  "rawCompareFn a b =
     numSub (jsToNumber (cellAt (rawValues a) 0)) (jsToNumber (cellAt (rawValues b) 0))"

fun rawInsertGene :: "rawGene \<Rightarrow> rawGene list \<Rightarrow> rawGene list" where
  "rawInsertGene x [] = [x]"
| "rawInsertGene x (y # ys) =
     (if numLess (Fin 0) (rawCompareFn x y) then y # rawInsertGene x ys else x # y # ys)"

definition rawSortGenes :: "rawGene list \<Rightarrow> rawGene list" where
  "rawSortGenes xs = foldr rawInsertGene xs []"

fun rawSortWithinCategories ::
  "jsval list \<Rightarrow> rawGene list obj \<Rightarrow> rawGene list \<Rightarrow> rawError + rawGene list" where
  "rawSortWithinCategories [] grouped sortedGeneData = Inr sortedGeneData"
| "rawSortWithinCategories (c # cs) grouped sortedGeneData =
     (case map_of grouped (toPropertyKey c) of
        None \<Rightarrow> Inl TypeError
      | Some categoryGenes \<Rightarrow>
          rawSortWithinCategories cs
            (setProp grouped (toPropertyKey c) (rawSortGenes categoryGenes))
            (sortedGeneData @ rawSortGenes categoryGenes))"

fun rawScanCategories ::
  "rawGene list \<Rightarrow> int \<Rightarrow> jsval \<times> int \<times> categoryGroup list \<Rightarrow> jsval \<times> int \<times> categoryGroup list" where
  "rawScanCategories [] index st = st"
| "rawScanCategories (gene # rest) index (cur, start, acc) =
     (if \<not> strictEq (rawCategory gene) cur
      then rawScanCategories rest (index + 1)
             (rawCategory gene, index,
              if cur \<noteq> Null
              then acc @ [\<lparr> groupCategory = cur, startIndex = start,
                            endIndex = index - 1, groupCount = index - start \<rparr>]
              else acc)
      else rawScanCategories rest (index + 1) (cur, start, acc))"

definition rawBuildCategoryGroups :: "rawGene list \<Rightarrow> categoryGroup list" where
  "rawBuildCategoryGroups sortedGeneData =
     (case rawScanCategories sortedGeneData 0 (Null, 0, []) of
        (cur, start, acc) \<Rightarrow>
          if cur \<noteq> Null
          then acc @ [\<lparr> groupCategory = cur, startIndex = start,
                        endIndex = int (length sortedGeneData) - 1,
                        groupCount = int (length sortedGeneData) - start \<rparr>]
          else acc)"

definition rawProcessExcelFile :: "row list \<Rightarrow> rawError + rawDataset" where
  "rawProcessExcelFile rawData =
     (let headers = (case rawData of [] \<Rightarrow> [] | first # _ \<Rightarrow> objectKeys first);
          comps = filter (test comparisonPattern) headers;
          shortNames = map shortName comps;
          pCols = filter (test pValuePattern) headers;
          categoryCol = findCategoryCol headers;
          geneData = map (rawRowGene comps pCols categoryCol) rawData;
          cats = distinctInOrder (map rawCategory geneData);
          grouped = fold (rawGroupStep geneData) cats []
      in case rawSortWithinCategories cats grouped [] of
           Inl e \<Rightarrow> Inl e
         | Inr sortedGeneData \<Rightarrow>
             Inr \<lparr> rawGenes = sortedGeneData,
                   rawComparisons = shortNames,
                   rawComparisonColumns = comps,
                   rawPValueColumns = pCols,
                   rawCategoryGroups = rawBuildCategoryGroups sortedGeneData \<rparr>)"

section \<open>Colour scale\<close>

text \<open>
  \<open>colorScale\<close> is the same in every copy of the component. It reads two pieces of
  state, \<open>colorScaleType\<close> and \<open>data\<close>, and in quantile mode it reverses the
  array \<open>d3.schemeRdBu[7]\<close> in place before handing it to the scale, so the current
  content of that array is an argument and a result here. The colours
  \<open>d3.interpolateReds(t)\<close> and \<open>d3.interpolateBlues(t)\<close> are kept as terms, and
  \<open>NoColor\<close> stands for the \<open>undefined\<close> that a scale returns for an input that is
  not a number.
\<close>

datatype scaleType = Linear | Log | Quantile

datatype color = Hex string | InterpolateReds number | InterpolateBlues number | NoColor

text \<open>\<open>Math.min(Math.abs(v) / 3, 1)\<close>, \<open>Math.log2(Math.abs(v) + 1)\<close> and unary minus.\<close>

fun intensity :: "number \<Rightarrow> number" where
  "intensity NaN = NaN"
| "intensity (Fin a) = Fin (min (\<bar>a\<bar> / 3) 1)"
| "intensity PosInf = Fin 1"
| "intensity NegInf = Fin 1"

fun log2abs1 :: "number \<Rightarrow> number" where
  "log2abs1 NaN = NaN"
| "log2abs1 (Fin a) = Fin (log 2 (\<bar>a\<bar> + 1))"
| "log2abs1 PosInf = PosInf"
| "log2abs1 NegInf = PosInf"

fun numNeg :: "number \<Rightarrow> number" where
  "numNeg NaN = NaN"
| "numNeg (Fin a) = Fin (- a)"
| "numNeg PosInf = NegInf"
| "numNeg NegInf = PosInf"

definition rampColor :: "number \<Rightarrow> color" where
  "rampColor v =
     (if numLess (Fin 0) v then InterpolateReds (intensity v) else InterpolateBlues (intensity v))"

definition logTransform :: "jsval \<Rightarrow> number" where
  "logTransform val =
     (if val = Num (Fin 0) then Fin 0
      else if numLess (Fin 0) (jsToNumber val) then log2abs1 (jsToNumber val)
      else numNeg (log2abs1 (jsToNumber val)))"

text \<open>Addition, and multiplication by a finite factor.\<close>

fun numAdd :: "number \<Rightarrow> number \<Rightarrow> number" where
  "numAdd a b = numSub a (numNeg b)"

fun numScale :: "number \<Rightarrow> real \<Rightarrow> number" where
  "numScale NaN f = NaN"
| "numScale (Fin a) f = Fin (a * f)"
| "numScale PosInf f = (if 0 < f then PosInf else if f < 0 then NegInf else NaN)"
| "numScale NegInf f = (if 0 < f then NegInf else if f < 0 then PosInf else NaN)"

text \<open>
  Modelled from the spec: \<open>d3.scaleQuantile\<close>, library code that is not among the
  sources. The spec has it "compute statistical quantile breakpoints (7 bins) over all
  non-null values in the current dataset, independent of sign; map value to its bin,
  then to a diverging 7-step color scheme". In the library's terms: the domain is the
  given values without \<open>null\<close>, \<open>undefined\<close> and \<open>NaN\<close>, coerced to numbers and
  sorted in ascending order; for a range of \<open>k\<close> colours there are \<open>k - 1\<close>
  thresholds, the \<open>i/k\<close> quantiles of the domain by linear interpolation between
  neighbours; a number is mapped to the colour whose index is the count of thresholds
  not above it (what the binary search of the library returns on ascending thresholds),
  and an input that is not a number to \<open>undefined\<close>.
\<close>

definition quantileDomain :: "jsval list \<Rightarrow> number list" where
  "quantileDomain vals =
     filter (\<lambda>n. n \<noteq> NaN)
       (map jsToNumber (filter (\<lambda>d. d \<noteq> Undefined \<and> d \<noteq> Null) vals))"

text \<open>Modelled from the spec: the ascending sort of the domain.\<close>

fun insertAscending :: "number \<Rightarrow> number list \<Rightarrow> number list" where
  "insertAscending x [] = [x]"
| "insertAscending x (y # ys) =
     (if numLess y x then y # insertAscending x ys else x # y # ys)"

definition sortAscending :: "number list \<Rightarrow> number list" where
  "sortAscending xs = foldr insertAscending xs []"

text \<open>Modelled from the spec: the quantile \<open>p\<close> of sorted values, by linear interpolation between neighbours.\<close>

definition quantileSorted :: "number list \<Rightarrow> real \<Rightarrow> number" where
  "quantileSorted vs p =
     (if vs = [] then NaN
      else if p \<le> 0 \<or> length vs < 2 then vs ! 0
      else if 1 \<le> p then vs ! (length vs - 1)
      else
        (let i = real (length vs - 1) * p;
             i0 = nat \<lfloor>i\<rfloor>
         in numAdd (vs ! i0) (numScale (numSub (vs ! (i0 + 1)) (vs ! i0)) (i - real i0))))"

text \<open>Modelled from the spec: the thresholds between \<open>k\<close> bins.\<close>

definition quantileThresholds :: "number list \<Rightarrow> nat \<Rightarrow> number list" where
  "quantileThresholds domain k = map (\<lambda>i. quantileSorted domain (real i / real k)) [1 ..< k]"

text \<open>Modelled from the spec: the bin of a number, the count of thresholds not above it.\<close>

definition bisectRight :: "number list \<Rightarrow> number \<Rightarrow> nat" where
  "bisectRight ts x = length (filter (\<lambda>t. numGreaterEq x t) ts)"

text \<open>Modelled from the spec: the breakpoints that a list of values gives for \<open>k\<close> bins.\<close>

definition quantileBreakpoints :: "jsval list \<Rightarrow> nat \<Rightarrow> number list" where
  "quantileBreakpoints vals k = quantileThresholds (sortAscending (quantileDomain vals)) k"

text \<open>
  Modelled from the spec: the scale that
  \<open>d3.scaleQuantile().domain(vals).range(colors)\<close> returns, which maps a value to its
  bin and the bin to its colour.
\<close>

definition scaleQuantile :: "jsval list \<Rightarrow> string list \<Rightarrow> jsval \<Rightarrow> color" where
  "scaleQuantile vals colors x =
     (let ts = quantileBreakpoints vals (max 1 (length colors))
      in if x = Undefined \<or> x = Null \<or> jsToNumber x = NaN then NoColor
         else if bisectRight ts (jsToNumber x) < length colors
              then Hex (colors ! bisectRight ts (jsToNumber x))
              else NoColor)"

text \<open>
  \<open>colorScale\<close> itself, on the values \<open>data.genes.flatMap(g => g.values)\<close> when
  \<open>data\<close> is set. The result is the colour and the content of \<open>d3.schemeRdBu[7]\<close>
  after the call.
\<close>

definition colorScaleOn ::
  "scaleType \<Rightarrow> jsval list option \<Rightarrow> string list \<Rightarrow> jsval \<Rightarrow> color \<times> string list" where
  "colorScaleOn colorScaleType allValsOfData scheme val =
     (if val = Undefined \<or> val = Null then (Hex ''#f9f9f9'', scheme)
      else if colorScaleType = Log then (rampColor (logTransform val), scheme)
      else if colorScaleType = Quantile \<and> allValsOfData \<noteq> None
        then (scaleQuantile (the allValsOfData) (rev scheme) val, rev scheme)
      else (rampColor (jsToNumber val), scheme))"







section \<open>Sample sheets\<close>

text \<open>The two-row sheet of the example scenario.\<close>

definition exampleRows :: "row list" where
  "exampleRows =
     [[(''Gene ID'', Str ''A''), (''Log2FC (Ctrl vs KD)'', Num (Fin 1.2)),
       (''P value (Ctrl vs KD)'', Num (Fin 0.03)),
       (''All Gene Ontology Category'', Str ''Lipid'')],
      [(''Gene ID'', Str ''B''), (''Log2FC (Ctrl vs KD)'', Num (Fin (- 0.5))),
       (''P value (Ctrl vs KD)'', Num (Fin 0.2)),
       (''All Gene Ontology Category'', Str ''Lipid'')]]"

definition geneA :: gene where
  "geneA = \<lparr> geneId = Str ''A'', category = Str ''Lipid'',
             geneValues = [Val (Fin 1.2)], pValues = [Val (Fin 0.03)] \<rparr>"

definition geneB :: gene where
  "geneB = \<lparr> geneId = Str ''B'', category = Str ''Lipid'',
             geneValues = [Val (Fin (- 0.5))], pValues = [Val (Fin 0.2)] \<rparr>"

definition exampleDataset :: dataset where
  "exampleDataset =
     \<lparr> genes = [geneB, geneA],
       comparisons = [''Ctrl vs KD''],
       comparisonColumns = [''Log2FC (Ctrl vs KD)''],
       pValueColumns = [''P value (Ctrl vs KD)''],
       categoryGroups = [\<lparr> groupCategory = Str ''Lipid'', startIndex = 0,
                           endIndex = 1, groupCount = 2 \<rparr>],
       categories = [Str ''Lipid''] \<rparr>"

text \<open>
  A sheet with a row whose identifier is blank, a numeric cell kept as text, an
  identifier with spaces around it and a missing p-value cell, and the dataset the
  pipeline builds from it.
\<close>

definition sampleRows :: "row list" where
  "sampleRows =
     [[(''Gene ID'', Str ''G1''), (''Pathway category'', Str ''Lipid''),
       (''log2fc  ( KD vs WT )'', Num (Fin 0.8)), (''P value (KD vs WT)'', Num (Fin 0.04))],
      [(''Gene ID'', Str ''  ''), (''Pathway category'', Str ''Lipid''),
       (''log2fc  ( KD vs WT )'', Num (Fin 2)), (''P value (KD vs WT)'', Num (Fin 0.5))],
      [(''Gene ID'', Str ''G3''), (''Pathway category'', Str ''Immune''),
       (''log2fc  ( KD vs WT )'', Str ''-1.5''), (''P value (KD vs WT)'', Num (Fin 0.2))],
      [(''Gene ID'', Str '' G4 ''), (''Pathway category'', Str ''Lipid''),
       (''log2fc  ( KD vs WT )'', Num (Fin (- 0.3)))]]"

definition sampleDataset :: dataset where
  "sampleDataset =
     \<lparr> genes =
         [\<lparr> geneId = Str ''G4'', category = Str ''Lipid'',
             geneValues = [Val (Fin (- 0.3))], pValues = [Nul] \<rparr>,
          \<lparr> geneId = Str ''G1'', category = Str ''Lipid'',
             geneValues = [Val (Fin 0.8)], pValues = [Val (Fin 0.04)] \<rparr>,
          \<lparr> geneId = Str ''G3'', category = Str ''Immune'',
             geneValues = [Val (Fin (- 1.5))], pValues = [Val (Fin 0.2)] \<rparr>],
       comparisons = [''KD vs WT''],
       comparisonColumns = [''log2fc  ( KD vs WT )''],
       pValueColumns = [''P value (KD vs WT)''],
       categoryGroups =
         [\<lparr> groupCategory = Str ''Lipid'', startIndex = 0, endIndex = 1, groupCount = 2 \<rparr>,
          \<lparr> groupCategory = Str ''Immune'', startIndex = 2, endIndex = 2, groupCount = 1 \<rparr>],
       categories = [Str ''Lipid'', Str ''Immune''] \<rparr>"

text \<open>A sheet without a fold-change column, and one in which every identifier is blank.\<close>

definition noComparisonRows :: "row list" where
  "noComparisonRows =
     [[(''Gene ID'', Str ''A''), (''Fold change (X)'', Num (Fin 1)),
       (''Log2FC X'', Num (Fin 2)), (''Log2FC ()'', Num (Fin 3))]]"

definition blankIdRows :: "row list" where
  "blankIdRows =
     [[(''Gene ID'', Str '' ''), (''Log2FC (X)'', Num (Fin 1))],
      [(''Log2FC (X)'', Num (Fin 2))]]"

text \<open>
  Sheets whose category column holds the number 5 in some rows and the text \<open>5\<close> in
  another.
\<close>

definition mixedCategoryRows :: "row list" where
  "mixedCategoryRows =
     [[(''Gene ID'', Str ''P''), (''Category'', Num (Fin 5)), (''Log2FC (X)'', Num (Fin 1))],
      [(''Gene ID'', Str ''Q''), (''Category'', Str ''5''), (''Log2FC (X)'', Num (Fin 2))]]"

definition geneP :: gene where
  "geneP = \<lparr> geneId = Str ''P'', category = Num (Fin 5),
             geneValues = [Val (Fin 1)], pValues = [] \<rparr>"

definition geneQ :: gene where
  "geneQ = \<lparr> geneId = Str ''Q'', category = Str ''5'',
             geneValues = [Val (Fin 2)], pValues = [] \<rparr>"

definition clusterRows :: "row list" where
  "clusterRows =
     [[(''Gene ID'', Str ''G1''), (''Category'', Num (Fin 5)), (''Log2FC (X)'', Num (Fin 1))],
      [(''Gene ID'', Str ''G2''), (''Category'', Num (Fin 5)), (''Log2FC (X)'', Num (Fin 3))],
      [(''Gene ID'', Str ''G3''), (''Category'', Str ''5''), (''Log2FC (X)'', Num (Fin 2))]]"

definition clusterGene3 :: gene where
  "clusterGene3 = \<lparr> geneId = Str ''G3'', category = Str ''5'',
                    geneValues = [Val (Fin 2)], pValues = [] \<rparr>"

section \<open>Auxiliary notions\<close>

text \<open>The gene list that row validation hands to grouping, as a function of the sheet.\<close>

definition validated :: "row list \<Rightarrow> gene list" where
  "validated rawData =
     validateRows (filter (test comparisonPattern) (objectKeys (hd rawData)))
       (filter (test pValuePattern) (objectKeys (hd rawData)))
       (findCategoryCol (objectKeys (hd rawData))) rawData"

text \<open>
  Category groups that follow one another without gap or overlap from index \<open>a\<close> on, each
  with at least one gene and with \<open>endIndex\<close> and \<open>groupCount\<close> in agreement.
\<close>

fun tiled :: "int \<Rightarrow> categoryGroup list \<Rightarrow> bool" where
  "tiled a [] = True"
| "tiled a (s # ss) =
     (startIndex s = a \<and> 0 < groupCount s \<and> endIndex s = a + groupCount s - 1
      \<and> tiled (a + groupCount s) ss)"

text \<open>
  The invariant of the scan after \<open>i\<close> genes: the current category is that of the
  last gene seen, the open run \<open>[start, i)\<close> is of that category, the closed groups
  tile \<open>[0, start)\<close>, and the starts of the groups are the indices at which the
  category changes.
\<close>

definition scanInv :: "gene list \<Rightarrow> nat \<Rightarrow> jsval \<times> int \<times> categoryGroup list \<Rightarrow> bool" where
  "scanInv gs i st =
     (case st of (cur, start, acc) \<Rightarrow>
        (i = 0 \<longrightarrow> cur = Null \<and> start = 0 \<and> acc = []) \<and>
        (0 < i \<longrightarrow> cur = category (gs ! (i - 1)) \<and> 0 \<le> start \<and> start < int i
            \<and> (\<forall>j. start \<le> int j \<and> j < i \<longrightarrow> category (gs ! j) = cur)) \<and>
        tiled 0 acc \<and> sum_list (map groupCount acc) = start \<and>
        (\<forall>j. 0 < j \<and> j < i \<longrightarrow>
            (((\<exists>s \<in> set acc. startIndex s = int j) \<or> start = int j)
               \<longleftrightarrow> category (gs ! j) \<noteq> category (gs ! (j - 1)))) \<and>
        (\<forall>s \<in> set acc. \<forall>j. startIndex s \<le> int j \<and> int j \<le> endIndex s
            \<longrightarrow> category (gs ! j) = groupCategory s))"

definition nonemptyVals :: "gene list obj \<Rightarrow> bool" where
  "nonemptyVals obj = (\<forall>p \<in> set obj. snd p \<noteq> [])"


section \<open>Strict equality and truthiness\<close>

lemma truthy_strictEq: "truthy a \<Longrightarrow> strictEq a b = (a = b)"
  by (cases a rule: truthy.cases) (auto simp: strictEq_def)

lemma truthy_not_Null: "truthy a \<Longrightarrow> a \<noteq> Null"
  by auto

lemma tiled_append:
  "tiled a (xs @ ys) = (tiled a xs \<and> tiled (a + sum_list (map groupCount xs)) ys)"
  by (induction xs arbitrary: a) (auto simp: add.assoc)

lemma tiled_nth:
  "tiled a xs \<Longrightarrow> k < length xs \<Longrightarrow>
     startIndex (xs ! k) = a + sum_list (map groupCount (take k xs))
     \<and> endIndex (xs ! k) = startIndex (xs ! k) + groupCount (xs ! k) - 1
     \<and> 0 < groupCount (xs ! k)"
proof (induction xs arbitrary: a k)
  case Nil
  then show ?case by simp
next
  case (Cons s ss)
  show ?case
  proof (cases k)
    case 0
    with Cons.prems show ?thesis by simp
  next
    case (Suc m)
    with Cons.prems have "tiled (a + groupCount s) ss" "m < length ss" by simp_all
    from Cons.IH[OF this] Suc show ?thesis by (simp add: add.assoc)
  qed
qed

lemma tiled_bounds:
  "tiled a xs \<Longrightarrow> s \<in> set xs \<Longrightarrow>
     a \<le> startIndex s \<and> endIndex s < a + sum_list (map groupCount xs) \<and> startIndex s \<le> endIndex s"
proof (induction xs arbitrary: a)
  case Nil
  then show ?case by simp
next
  case (Cons t ts)
  have nonneg: "0 \<le> sum_list (map groupCount ts)" if "tiled b ts" for b
    using that by (induction ts arbitrary: b) (auto simp: add_nonneg_nonneg less_imp_le)
  show ?case
  proof (cases "s = t")
    case True
    with Cons.prems nonneg[of "a + groupCount t"] show ?thesis by auto
  next
    case False
    with Cons.prems have "tiled (a + groupCount t) ts" "s \<in> set ts" by simp_all
    from Cons.IH[OF this] Cons.prems(1) show ?thesis by auto
  qed
qed



lemma scanInvI:
  assumes "i = 0 \<Longrightarrow> cur = Null \<and> start = 0 \<and> acc = []"
    and "0 < i \<Longrightarrow> cur = category (gs ! (i - 1)) \<and> 0 \<le> start \<and> start < int i"
    and "\<And>j. 0 < i \<Longrightarrow> start \<le> int j \<Longrightarrow> j < i \<Longrightarrow> category (gs ! j) = cur"
    and "tiled 0 acc" and "sum_list (map groupCount acc) = start"
    and "\<And>j. 0 < j \<Longrightarrow> j < i \<Longrightarrow>
            (((\<exists>s \<in> set acc. startIndex s = int j) \<or> start = int j)
               \<longleftrightarrow> category (gs ! j) \<noteq> category (gs ! (j - 1)))"
    and "\<And>s j. s \<in> set acc \<Longrightarrow> startIndex s \<le> int j \<Longrightarrow> int j \<le> endIndex s
            \<Longrightarrow> category (gs ! j) = groupCategory s"
  shows "scanInv gs i (cur, start, acc)"
  unfolding scanInv_def prod.case using assms by blast

lemma scanInvD:
  assumes "scanInv gs i (cur, start, acc)"
  shows "i = 0 \<Longrightarrow> cur = Null \<and> start = 0 \<and> acc = []"
    and "0 < i \<Longrightarrow> cur = category (gs ! (i - 1)) \<and> 0 \<le> start \<and> start < int i"
    and "\<And>j. 0 < i \<Longrightarrow> start \<le> int j \<Longrightarrow> j < i \<Longrightarrow> category (gs ! j) = cur"
    and "tiled 0 acc" and "sum_list (map groupCount acc) = start"
    and "\<And>j. 0 < j \<Longrightarrow> j < i \<Longrightarrow>
            (((\<exists>s \<in> set acc. startIndex s = int j) \<or> start = int j)
               \<longleftrightarrow> category (gs ! j) \<noteq> category (gs ! (j - 1)))"
    and "\<And>s j. s \<in> set acc \<Longrightarrow> startIndex s \<le> int j \<Longrightarrow> int j \<le> endIndex s
            \<Longrightarrow> category (gs ! j) = groupCategory s"
  using assms unfolding scanInv_def prod.case by blast+


lemma scan_step_same:
  assumes inv: "scanInv gs i (cur, start, acc)"
    and same: "category (gs ! i) = cur" and nn: "cur \<noteq> Null"
  shows "scanInv gs (Suc i) (cur, start, acc)"
proof -
  note d = scanInvD[OF inv]
  have ipos: "0 < i" using d(1) nn by blast
  have st: "0 \<le> start" "start < int i" and cur: "cur = category (gs ! (i - 1))"
    using d(2)[OF ipos] by simp_all
  have below: "startIndex s < int i" if "s \<in> set acc" for s
    using tiled_bounds[OF d(4) that] d(5) st by simp
  show ?thesis
  proof (rule scanInvI)
    show "Suc i = 0 \<Longrightarrow> cur = Null \<and> start = 0 \<and> acc = []" by simp
    show "cur = category (gs ! (Suc i - 1)) \<and> 0 \<le> start \<and> start < int (Suc i)"
      using same st by simp
    show "category (gs ! j) = cur" if "start \<le> int j" "j < Suc i" for j
      using that d(3)[OF ipos, of j] same by (cases "j = i") simp_all
    show "tiled 0 acc" by (rule d(4))
    show "sum_list (map groupCount acc) = start" by (rule d(5))
    show "((\<exists>s \<in> set acc. startIndex s = int j) \<or> start = int j)
            \<longleftrightarrow> category (gs ! j) \<noteq> category (gs ! (j - 1))"
      if "0 < j" "j < Suc i" for j
    proof (cases "j = i")
      case True
      have "\<not> ((\<exists>s \<in> set acc. startIndex s = int j) \<or> start = int j)"
        using below st True by fastforce
      moreover have "category (gs ! j) = category (gs ! (j - 1))"
        using True same cur by simp
      ultimately show ?thesis by simp
    next
      case False
      with that have "j < i" by simp
      from d(6)[OF that(1) this] show ?thesis .
    qed
    show "category (gs ! j) = groupCategory s"
      if "s \<in> set acc" "startIndex s \<le> int j" "int j \<le> endIndex s" for s j
      using d(7)[OF that] .
  qed
qed

lemma scan_step_new:
  assumes inv: "scanInv gs i (cur, start, acc)"
    and diff: "category (gs ! i) \<noteq> cur" and nn: "cur \<noteq> Null"
  shows "scanInv gs (Suc i)
           (category (gs ! i), int i,
            acc @ [\<lparr> groupCategory = cur, startIndex = start,
                     endIndex = int i - 1, groupCount = int i - start \<rparr>])"
proof -
  note d = scanInvD[OF inv]
  have ipos: "0 < i" using d(1) nn by blast
  have st: "0 \<le> start" "start < int i" and cur: "cur = category (gs ! (i - 1))"
    using d(2)[OF ipos] by simp_all
  have below: "startIndex s < start" if "s \<in> set acc" for s
    using tiled_bounds[OF d(4) that] d(5) by simp
  let ?g = "\<lparr> groupCategory = cur, startIndex = start,
               endIndex = int i - 1, groupCount = int i - start \<rparr>"
  show ?thesis
  proof (rule scanInvI)
    show "Suc i = 0 \<Longrightarrow> category (gs ! i) = Null \<and> int i = 0 \<and> acc @ [?g] = []" by simp
    show "category (gs ! i) = category (gs ! (Suc i - 1)) \<and> 0 \<le> int i \<and> int i < int (Suc i)"
      by simp
    show "category (gs ! j) = category (gs ! i)" if "int i \<le> int j" "j < Suc i" for j
      using that by (cases "j = i") simp_all
    show "tiled 0 (acc @ [?g])"
      using d(4) d(5) st by (simp add: tiled_append)
    show "sum_list (map groupCount (acc @ [?g])) = int i"
      using d(5) by simp
    show "((\<exists>s \<in> set (acc @ [?g]). startIndex s = int j) \<or> int i = int j)
            \<longleftrightarrow> category (gs ! j) \<noteq> category (gs ! (j - 1))"
      if "0 < j" "j < Suc i" for j
    proof (cases "j = i")
      case True
      then show ?thesis using diff cur by simp
    next
      case False
      with that have ji: "j < i" by simp
      from d(6)[OF that(1) this] ji show ?thesis by auto
    qed
    show "category (gs ! j) = groupCategory s"
      if "s \<in> set (acc @ [?g])" "startIndex s \<le> int j" "int j \<le> endIndex s" for s j
    proof (cases "s \<in> set acc")
      case True
      from d(7)[OF this that(2,3)] show ?thesis .
    next
      case False
      with that(1) have s: "s = ?g" by simp
      with that(2,3) have "start \<le> int j" "j < i" by simp_all
      from d(3)[OF ipos this] s show ?thesis by simp
    qed
  qed
qed

lemma scan_step_first:
  assumes inv: "scanInv gs 0 (cur, start, acc)" and nn: "category (gs ! 0) \<noteq> Null"
  shows "scanInv gs (Suc 0) (category (gs ! 0), 0, acc)" and "cur = Null"
proof -
  from scanInvD(1)[OF inv] have e: "cur = Null" "start = 0" "acc = []" by simp_all
  show "cur = Null" by (rule e)
  show "scanInv gs (Suc 0) (category (gs ! 0), 0, acc)"
    by (rule scanInvI) (simp_all add: e)
qed


lemma scan_all:
  assumes tr: "\<forall>g \<in> set gs. truthy (category g)"
  shows "scanInv gs i st \<Longrightarrow> i \<le> length gs \<Longrightarrow> length gs - i = n \<Longrightarrow>
         scanInv gs (length gs) (scanCategories (drop i gs) (int i) st)"
proof (induction n arbitrary: i st)
  case 0
  then show ?case by simp
next
  case (Suc n)
  obtain cur start acc where st: "st = (cur, start, acc)" by (cases st)
  from Suc.prems have i: "i < length gs" by simp
  then have dr: "drop i gs = gs ! i # drop (Suc i) gs" by (simp add: Cons_nth_drop_Suc)
  from i tr have t: "truthy (category (gs ! i))" by simp
  then have nn: "category (gs ! i) \<noteq> Null" by auto
  have se: "strictEq (category (gs ! i)) cur = (category (gs ! i) = cur)"
    using t by (rule truthy_strictEq)
  have rest: "Suc i \<le> length gs" "length gs - Suc i = n" using Suc.prems by simp_all
  have idx: "int i + 1 = int (Suc i)" by simp
  show ?case
  proof (cases "category (gs ! i) = cur")
    case True
    then have "cur \<noteq> Null" using nn by simp
    from scan_step_same[OF Suc.prems(1)[unfolded st] True this]
    have "scanInv gs (Suc i) (cur, start, acc)" .
    from Suc.IH[OF this rest] show ?thesis
      unfolding st dr using True se by (simp only: scanCategories.simps idx if_False simp_thms)
  next
    case False
    show ?thesis
    proof (cases "cur = Null")
      case True
      have i0: "i = 0"
      proof (rule ccontr)
        assume "i \<noteq> 0"
        then have "0 < i" by simp
        from scanInvD(2)[OF Suc.prems(1)[unfolded st] this] True i tr show False
          by (metis nth_mem truthy.simps(2) less_imp_diff_less)
      qed
      from scan_step_first(1)[OF Suc.prems(1)[unfolded st i0]] nn i0
      have "scanInv gs (Suc i) (category (gs ! i), int i, acc)" by simp
      from Suc.IH[OF this rest] show ?thesis
        unfolding st dr using False se True by (simp add: idx del: of_nat_Suc)
    next
      case nz: False
      from scan_step_new[OF Suc.prems(1)[unfolded st] False nz]
      have "scanInv gs (Suc i)
           (category (gs ! i), int i,
            acc @ [\<lparr> groupCategory = cur, startIndex = start,
                     endIndex = int i - 1, groupCount = int i - start \<rparr>])" .
      from Suc.IH[OF this rest] show ?thesis
        unfolding st dr using False se nz by (simp add: idx del: of_nat_Suc)
    qed
  qed
qed


lemma scanInv_init: "scanInv gs 0 (Null, 0, [])"
  by (rule scanInvI) simp_all

lemma buildCategoryGroups_props:
  assumes tr: "\<forall>g \<in> set gs. truthy (category g)" and ne: "gs \<noteq> []"
  defines "segs \<equiv> buildCategoryGroups gs"
  shows "tiled 0 segs"
    and "sum_list (map groupCount segs) = int (length gs)"
    and "\<And>j. 0 < j \<Longrightarrow> j < length gs \<Longrightarrow>
           ((\<exists>s \<in> set segs. startIndex s = int j)
              \<longleftrightarrow> category (gs ! j) \<noteq> category (gs ! (j - 1)))"
    and "\<And>s j. s \<in> set segs \<Longrightarrow> startIndex s \<le> int j \<Longrightarrow> int j \<le> endIndex s
           \<Longrightarrow> category (gs ! j) = groupCategory s"
proof -
  obtain cur start acc where sc: "scanCategories gs 0 (Null, 0, []) = (cur, start, acc)"
    by (cases "scanCategories gs 0 (Null, 0, [])")
  have "scanInv gs (length gs) (scanCategories (drop 0 gs) (int 0) (Null, 0, []))"
    by (rule scan_all[OF tr scanInv_init]) simp_all
  then have inv: "scanInv gs (length gs) (cur, start, acc)" using sc by simp
  note d = scanInvD[OF inv]
  have npos: "0 < length gs" using ne by simp
  have st: "0 \<le> start" "start < int (length gs)" and cur: "cur = category (gs ! (length gs - 1))"
    using d(2)[OF npos] by simp_all
  have "truthy cur" using cur tr npos by simp
  then have nn: "cur \<noteq> Null" by auto
  let ?g = "\<lparr> groupCategory = cur, startIndex = start,
               endIndex = int (length gs) - 1, groupCount = int (length gs) - start \<rparr>"
  have segs: "segs = acc @ [?g]"
    unfolding segs_def buildCategoryGroups_def sc using nn by simp
  have below: "startIndex s < start" if "s \<in> set acc" for s
    using tiled_bounds[OF d(4) that] d(5) by simp
  show "tiled 0 segs" unfolding segs using d(4) d(5) st by (simp add: tiled_append)
  show "sum_list (map groupCount segs) = int (length gs)" unfolding segs using d(5) by simp
  show "(\<exists>s \<in> set segs. startIndex s = int j)
              \<longleftrightarrow> category (gs ! j) \<noteq> category (gs ! (j - 1))"
    if "0 < j" "j < length gs" for j
    using d(6)[OF that] unfolding segs by auto
  show "category (gs ! j) = groupCategory s"
    if "s \<in> set segs" "startIndex s \<le> int j" "int j \<le> endIndex s" for s j
  proof (cases "s \<in> set acc")
    case True
    from d(7)[OF this that(2,3)] show ?thesis .
  next
    case False
    with that(1) have s: "s = ?g" unfolding segs by simp
    with that(2,3) have "start \<le> int j" "j < length gs" by simp_all
    from d(3)[OF npos this] s show ?thesis by simp
  qed
qed

section \<open>Sets, sorting and objects\<close>

lemma distinctInOrder_fold_set:
  "set (fold (\<lambda>x acc. if x \<in> set acc then acc else acc @ [x]) xs acc) = set acc \<union> set xs"
  by (induction xs arbitrary: acc) auto

lemma distinctInOrder_fold_distinct:
  "distinct acc \<Longrightarrow> distinct (fold (\<lambda>x acc. if x \<in> set acc then acc else acc @ [x]) xs acc)"
  by (induction xs arbitrary: acc) auto

lemma set_distinctInOrder [simp]: "set (distinctInOrder xs) = set xs"
  by (simp add: distinctInOrder_def distinctInOrder_fold_set)

lemma distinct_distinctInOrder [simp]: "distinct (distinctInOrder xs)"
  by (simp add: distinctInOrder_def distinctInOrder_fold_distinct)

lemma mset_insertGene: "mset (insertGene x ys) = add_mset x (mset ys)"
  by (induction ys) auto

lemma mset_sortGenes: "mset (sortGenes xs) = mset xs"
  by (induction xs) (auto simp: sortGenes_def mset_insertGene)

lemma set_sortGenes: "set (sortGenes xs) = set xs"
  using mset_sortGenes[of xs] by (metis set_mset_mset)

lemma length_sortGenes: "length (sortGenes xs) = length xs"
  using mset_sortGenes[of xs] by (metis size_mset)

lemma map_of_setProp: "map_of (setProp obj k v) k' = (if k' = k then Some v else map_of obj k')"
  by (induction obj) auto

lemma groupStep_values:
  "map_of (groupStep geneData c obj) k = Some v
   \<Longrightarrow> map_of obj k = Some v \<or> set v \<subseteq> set geneData"
  by (auto simp: groupStep_def Let_def map_of_setProp split: if_splits)

lemma groupByCategory_fold_values:
  "map_of (fold (groupStep geneData) cats obj) k = Some v
   \<Longrightarrow> map_of obj k = Some v \<or> set v \<subseteq> set geneData"
proof (induction cats arbitrary: obj)
  case Nil
  then show ?case by simp
next
  case (Cons c cats)
  from Cons.prems have "map_of (fold (groupStep geneData) cats (groupStep geneData c obj)) k = Some v"
    by simp
  from Cons.IH[OF this] groupStep_values[of geneData c obj k v] show ?case by blast
qed

lemma groupByCategory_values:
  "map_of (groupByCategory cats geneData) k = Some v \<Longrightarrow> set v \<subseteq> set geneData"
  unfolding groupByCategory_def by (drule groupByCategory_fold_values) simp

lemma sortStep_fold_subset:
  assumes "\<forall>k v. map_of (fst st) k = Some v \<longrightarrow> set v \<subseteq> S" and "set (snd st) \<subseteq> S"
  shows "set (snd (fold sortStep cats st)) \<subseteq> S"
  using assms
proof (induction cats arbitrary: st)
  case Nil
  then show ?case by simp
next
  case (Cons c cats)
  have "\<forall>k v. map_of (fst (sortStep c st)) k = Some v \<longrightarrow> set v \<subseteq> S"
    using Cons.prems(1) by (auto simp: sortStep_def map_of_setProp set_sortGenes split: option.splits if_splits)
  moreover have "set (snd (sortStep c st)) \<subseteq> S"
    using Cons.prems by (auto simp: sortStep_def set_sortGenes split: option.splits)
  ultimately show ?case using Cons.IH by simp
qed

lemma set_groupAndSort_subset: "set (groupAndSort geneData) \<subseteq> set geneData"
  unfolding groupAndSort_def Let_def sortWithinCategories_def
  by (rule sortStep_fold_subset) (auto dest: groupByCategory_values)

lemma truthy_jsOr_Uncategorized: "truthy (jsOr a (Str ''Uncategorized''))"
  by (simp add: jsOr_def)

lemma validateRows_truthy:
  "g \<in> set (validateRows comps pCols categoryCol rawData) \<Longrightarrow> truthy (category g) \<and> truthy (geneId g)"
  by (auto simp: validateRows_def rowGenes_def truthy_jsOr_Uncategorized split: if_splits)

lemma length_validateRows:
  "length (validateRows comps pCols categoryCol rawData) = length (filter (\<lambda>r. truthy (geneIdOf r)) rawData)"
  by (induction rawData) (auto simp: validateRows_def rowGenes_def)

section \<open>The header patterns\<close>

lemma paren_not_ws: "\<not> isWhiteSpace CHR ''(''"
  by (simp add: isWhiteSpace_def)

lemma matchPattern_shape:
  assumes m: "map toUpperChar m = map toUpperChar marker"
    and ws: "\<forall>c \<in> set ws. isWhiteSpace c"
    and x: "x \<noteq> []" "\<forall>c \<in> set x. \<not> isLineTerminator c"
  shows "matchPattern marker (m @ ws @ ''('' @ x @ '')'') = Some x"
proof -
  from m have len: "length m = length marker" by (metis length_map)
  have dw: "dropWhile isWhiteSpace (ws @ ''('' @ x @ '')'') = CHR ''('' # x @ '')''"
    using ws paren_not_ws by (simp add: dropWhile_append3)
  show ?thesis
    unfolding matchPattern_def using len m dw x
    by (simp add: list_ex_iff)
qed

lemma matchPattern_Some:
  assumes "matchPattern marker h = Some x"
  shows "\<exists>m ws. h = m @ ws @ ''('' @ x @ '')'' \<and> map toUpperChar m = map toUpperChar marker
           \<and> (\<forall>c \<in> set ws. isWhiteSpace c) \<and> x \<noteq> [] \<and> (\<forall>c \<in> set x. \<not> isLineTerminator c)"
proof -
  let ?m = "take (length marker) h" and ?r = "drop (length marker) h"
  from assms have m: "map toUpperChar ?m = map toUpperChar marker"
    by (auto simp: matchPattern_def split: if_splits)
  from assms obtain rest where dw: "dropWhile isWhiteSpace ?r = CHR ''('' # rest"
    and rest: "rest \<noteq> []" "last rest = CHR '')''" "butlast rest = x" "x \<noteq> []"
          "\<not> list_ex isLineTerminator x"
    by (auto simp: matchPattern_def split: if_splits list.splits)
  have "h = ?m @ ?r" by simp
  also have "?r = takeWhile isWhiteSpace ?r @ dropWhile isWhiteSpace ?r" by simp
  also have "dropWhile isWhiteSpace ?r = ''('' @ x @ '')''"
    using dw rest by (metis append_Cons append_Nil append_butlast_last_id)
  finally have "h = ?m @ takeWhile isWhiteSpace ?r @ ''('' @ x @ '')''" .
  moreover have "\<forall>c \<in> set (takeWhile isWhiteSpace ?r). isWhiteSpace c"
    by (meson set_takeWhileD)
  ultimately show ?thesis using m rest by (auto simp: list_ex_iff)
qed

section \<open>Grouping never yields an empty list\<close>

lemma keys_setProp: "fst ` set (setProp obj k v) = insert k (fst ` set obj)"
  by (induction obj k v rule: setProp.induct) (auto split: if_splits)

lemma set_setProp_subset: "set (setProp obj k v) \<subseteq> insert (k, v) (set obj)"
  by (induction obj k v rule: setProp.induct) (auto split: if_splits)

lemma nonemptyVals_setProp: "nonemptyVals obj \<Longrightarrow> v \<noteq> [] \<Longrightarrow> nonemptyVals (setProp obj k v)"
  using set_setProp_subset[of obj k v] unfolding nonemptyVals_def by fastforce

lemma nonemptyVals_groupStep: "nonemptyVals obj \<Longrightarrow> nonemptyVals (groupStep gd c obj)"
  by (simp add: groupStep_def Let_def nonemptyVals_setProp)

lemma nonemptyVals_fold_groupStep:
  "nonemptyVals obj \<Longrightarrow> nonemptyVals (fold (groupStep gd) cats obj)"
  by (induction cats arbitrary: obj) (simp_all add: nonemptyVals_groupStep)

lemma keys_groupStep: "fst ` set obj \<subseteq> fst ` set (groupStep gd c obj)"
  by (auto simp: groupStep_def Let_def keys_setProp)

lemma keys_fold_groupStep: "fst ` set obj \<subseteq> fst ` set (fold (groupStep gd) cats obj)"
proof (induction cats arbitrary: obj)
  case Nil
  show ?case by simp
next
  case (Cons c cats)
  have "fst ` set obj \<subseteq> fst ` set (groupStep gd c obj)" by (rule keys_groupStep)
  also have "\<dots> \<subseteq> fst ` set (fold (groupStep gd) cats (groupStep gd c obj))" by (rule Cons.IH)
  finally show ?case by simp
qed

lemma fold_groupStep_present:
  assumes "c \<in> set cats" and "filter (\<lambda>g. strictEq (category g) c) gd \<noteq> []"
  shows "toPropertyKey c \<in> fst ` set (fold (groupStep gd) cats obj)"
  using assms(1)
proof (induction cats arbitrary: obj)
  case Nil
  then show ?case by simp
next
  case (Cons a cats)
  show ?case
  proof (cases "c = a")
    case True
    have "toPropertyKey c \<in> fst ` set (groupStep gd a obj)"
      using assms(2) True by (simp add: groupStep_def Let_def keys_setProp)
    then show ?thesis using keys_fold_groupStep[of "groupStep gd a obj" gd cats] by auto
  next
    case False
    with Cons.prems have "c \<in> set cats" by simp
    from Cons.IH[OF this] show ?thesis by simp
  qed
qed

lemma sortStep_grows: "length (snd st) \<le> length (snd (sortStep c st))"
  by (simp add: sortStep_def split: option.splits)

lemma fold_sortStep_grows: "length (snd st) \<le> length (snd (fold sortStep cats st))"
proof (induction cats arbitrary: st)
  case Nil
  then show ?case by simp
next
  case (Cons c cats)
  have "length (snd st) \<le> length (snd (sortStep c st))" by (rule sortStep_grows)
  also have "\<dots> \<le> length (snd (fold sortStep cats (sortStep c st)))" by (rule Cons.IH)
  finally show ?case by simp
qed

lemma lookup_present:
  assumes "k \<in> fst ` set obj" "nonemptyVals obj"
  shows "\<exists>v. map_of obj k = Some v \<and> v \<noteq> []"
proof -
  from assms(1) obtain v where v: "map_of obj k = Some v"
    by (metis map_of_eq_None_iff not_Some_eq)
  then have "(k, v) \<in> set obj" by (rule map_of_SomeD)
  with assms(2) have "v \<noteq> []" unfolding nonemptyVals_def by fastforce
  with v show ?thesis by blast
qed

lemma fold_sortStep_nonempty:
  assumes "cats \<noteq> []" and "toPropertyKey (hd cats) \<in> fst ` set obj" and "nonemptyVals obj"
  shows "snd (fold sortStep cats (obj, [])) \<noteq> []"
proof -
  obtain c rest where cats: "cats = c # rest" using assms(1) by (cases cats) auto
  from lookup_present[OF assms(2,3)] cats
  obtain v where v: "map_of obj (toPropertyKey c) = Some v" "v \<noteq> []" by auto
  have "0 < length (sortGenes v)" using v(2) by (simp add: length_sortGenes)
  also have "\<dots> \<le> length (snd (sortStep c (obj, [])))" using v(1) by (simp add: sortStep_def)
  also have "\<dots> \<le> length (snd (fold sortStep rest (sortStep c (obj, []))))"
    by (rule fold_sortStep_grows)
  finally show ?thesis using cats by simp
qed

lemma hd_distinctInOrder_fold:
  "acc \<noteq> [] \<Longrightarrow> hd (fold (\<lambda>x acc. if x \<in> set acc then acc else acc @ [x]) xs acc) = hd acc"
  by (induction xs arbitrary: acc) auto

lemma hd_distinctInOrder: "xs \<noteq> [] \<Longrightarrow> hd (distinctInOrder xs) = hd xs"
  by (cases xs) (simp_all add: distinctInOrder_def hd_distinctInOrder_fold)

lemma groupAndSort_nonempty:
  assumes ne: "gd \<noteq> []" and tr: "\<forall>g \<in> set gd. truthy (category g)"
  shows "groupAndSort gd \<noteq> []"
proof -
  let ?cats = "distinctInOrder (map category gd)"
  let ?c = "category (hd gd)"
  have cats_ne: "?cats \<noteq> []" using ne by (metis set_distinctInOrder set_empty map_is_Nil_conv)
  have hdc: "hd ?cats = ?c" using ne by (simp add: hd_distinctInOrder hd_map)
  have "hd gd \<in> set gd" using ne by simp
  moreover from this tr have "strictEq ?c ?c" by (simp add: truthy_strictEq)
  ultimately have f: "filter (\<lambda>g. strictEq (category g) ?c) gd \<noteq> []"
    by (metis (mono_tags, lifting) filter_empty_conv)
  have "?c \<in> set ?cats" using ne by simp
  from fold_groupStep_present[OF this f]
  have key: "toPropertyKey (hd ?cats) \<in> fst ` set (groupByCategory ?cats gd)"
    by (simp add: groupByCategory_def hdc)
  have "nonemptyVals (groupByCategory ?cats gd)"
    unfolding groupByCategory_def by (rule nonemptyVals_fold_groupStep) (simp add: nonemptyVals_def)
  from fold_sortStep_nonempty[OF cats_ne key this] show ?thesis
    by (simp add: groupAndSort_def sortWithinCategories_def Let_def)
qed

section \<open>Grouping under distinct property keys\<close>

lemma fold_groupStep_untouched:
  "\<forall>a \<in> set cats. toPropertyKey a \<noteq> k \<Longrightarrow>
     map_of (fold (groupStep gd) cats obj) k = map_of obj k"
  by (induction cats arbitrary: obj) (auto simp: groupStep_def Let_def map_of_setProp)

lemma fold_groupStep_lookup:
  assumes "inj_on toPropertyKey (set cats)" "distinct cats" "c \<in> set cats"
    and "filter (\<lambda>g. strictEq (category g) c) gd \<noteq> []"
  shows "map_of (fold (groupStep gd) cats obj) (toPropertyKey c)
           = Some (filter (\<lambda>g. strictEq (category g) c) gd)"
  using assms(1,2,3)
proof (induction cats arbitrary: obj)
  case Nil
  then show ?case by simp
next
  case (Cons a cats)
  show ?case
  proof (cases "c = a")
    case True
    have "\<forall>b \<in> set cats. toPropertyKey b \<noteq> toPropertyKey c"
    proof
      fix b assume b: "b \<in> set cats"
      with Cons.prems(2) True have "b \<noteq> c" by auto
      with Cons.prems(1) b True show "toPropertyKey b \<noteq> toPropertyKey c"
        by (auto simp: inj_on_def)
    qed
    then have "map_of (fold (groupStep gd) cats (groupStep gd a obj)) (toPropertyKey c)
        = map_of (groupStep gd a obj) (toPropertyKey c)"
      by (rule fold_groupStep_untouched)
    also have "\<dots> = Some (filter (\<lambda>g. strictEq (category g) c) gd)"
      using assms(4) True by (simp add: groupStep_def Let_def map_of_setProp)
    finally show ?thesis by simp
  next
    case False
    with Cons.prems have "inj_on toPropertyKey (set cats)" "distinct cats" "c \<in> set cats"
      by simp_all
    from Cons.IH[OF this] show ?thesis by simp
  qed
qed

lemma fold_sortStep_concat:
  assumes "inj_on toPropertyKey (set cats)" "distinct cats"
    and "\<forall>c \<in> set cats. map_of obj (toPropertyKey c) = Some (G c)"
  shows "snd (fold sortStep cats (obj, out)) = out @ concat (map (\<lambda>c. sortGenes (G c)) cats)"
  using assms
proof (induction cats arbitrary: obj out)
  case Nil
  then show ?case by simp
next
  case (Cons a cats)
  let ?obj = "setProp obj (toPropertyKey a) (sortGenes (G a))"
  have step: "sortStep a (obj, out) = (?obj, out @ sortGenes (G a))"
    using Cons.prems(3) by (simp add: sortStep_def)
  have "\<forall>c \<in> set cats. map_of ?obj (toPropertyKey c) = Some (G c)"
  proof
    fix c assume c: "c \<in> set cats"
    with Cons.prems(2) have "c \<noteq> a" by auto
    with Cons.prems(1) c have "toPropertyKey c \<noteq> toPropertyKey a" by (auto simp: inj_on_def)
    with Cons.prems(3) c show "map_of ?obj (toPropertyKey c) = Some (G c)"
      by (simp add: map_of_setProp)
  qed
  moreover from Cons.prems have "inj_on toPropertyKey (set cats)" "distinct cats" by simp_all
  ultimately have "snd (fold sortStep cats (?obj, out @ sortGenes (G a)))
      = (out @ sortGenes (G a)) @ concat (map (\<lambda>c. sortGenes (G c)) cats)"
    by (rule Cons.IH[rotated 2])
  then show ?case by (simp add: step)
qed

lemma mset_filter_split:
  "mset (filter P xs) + mset (filter (\<lambda>x. \<not> P x) xs) = mset xs"
  by (induction xs) auto

lemma mset_concat_filter:
  "distinct cs \<Longrightarrow> \<forall>g \<in> set gd. f g \<in> set cs \<Longrightarrow>
     mset (concat (map (\<lambda>c. filter (\<lambda>g. f g = c) gd) cs)) = mset gd"
proof (induction cs arbitrary: gd)
  case Nil
  then show ?case by (cases gd) auto
next
  case (Cons c cs)
  let ?rest = "filter (\<lambda>g. \<not> f g = c) gd"
  have same: "filter (\<lambda>g. f g = c') gd = filter (\<lambda>g. f g = c') ?rest" if "c' \<in> set cs" for c'
  proof -
    from that Cons.prems(1) have "c' \<noteq> c" by auto
    then show ?thesis by (auto intro: filter_cong)
  qed
  have "\<forall>g \<in> set ?rest. f g \<in> set cs" using Cons.prems(2) by auto
  with Cons.prems(1) have ih: "mset (concat (map (\<lambda>c. filter (\<lambda>g. f g = c) ?rest) cs)) = mset ?rest"
    by (intro Cons.IH) simp_all
  have "map (\<lambda>c. filter (\<lambda>g. f g = c) gd) cs = map (\<lambda>c. filter (\<lambda>g. f g = c) ?rest) cs"
    using same by (intro map_cong) simp_all
  then have "mset (concat (map (\<lambda>c. filter (\<lambda>g. f g = c) gd) cs)) = mset ?rest"
    using ih by (simp only:)
  then have "mset (concat (map (\<lambda>c. filter (\<lambda>g. f g = c) gd) (c # cs)))
      = mset (filter (\<lambda>g. f g = c) gd) + mset ?rest"
    by (simp only: list.map concat.simps mset_append)
  also have "\<dots> = mset gd" by (rule mset_filter_split)
  finally show ?case .
qed

lemma mset_concat_sortGenes:
  "mset (concat (map (\<lambda>c. sortGenes (G c)) cs)) = mset (concat (map G cs))"
  by (induction cs) (simp_all add: mset_sortGenes)

lemma inj_on_toPropertyKey_strings:
  assumes "\<forall>c \<in> C. \<exists>s. c = Str s"
  shows "inj_on toPropertyKey C"
proof (rule inj_onI)
  fix a b assume "a \<in> C" "b \<in> C" and k: "toPropertyKey a = toPropertyKey b"
  with assms obtain s t where "a = Str s" "b = Str t" by blast
  with k show "a = b" by simp
qed

lemma groupAndSort_permutation:
  assumes tr: "\<forall>g \<in> set gd. truthy (category g)"
    and inj: "inj_on toPropertyKey (category ` set gd)"
  shows "mset (groupAndSort gd) = mset gd"
proof -
  let ?cats = "distinctInOrder (map category gd)"
  let ?G = "\<lambda>c. filter (\<lambda>g. strictEq (category g) c) gd"
  have G: "?G c = filter (\<lambda>g. category g = c) gd" for c
    using tr by (auto intro!: filter_cong simp: truthy_strictEq)
  have inj': "inj_on toPropertyKey (set ?cats)" using inj by simp
  have ne: "?G c \<noteq> []" if "c \<in> set ?cats" for c
  proof -
    from that obtain g where "g \<in> set gd" "category g = c" by auto
    then show ?thesis unfolding G by (auto simp: filter_empty_conv)
  qed
  have "\<forall>c \<in> set ?cats. map_of (groupByCategory ?cats gd) (toPropertyKey c) = Some (?G c)"
    unfolding groupByCategory_def
    using fold_groupStep_lookup[OF inj' distinct_distinctInOrder _ ne] by blast
  from fold_sortStep_concat[OF inj' distinct_distinctInOrder this, of "[]"]
  have "groupAndSort gd = concat (map (\<lambda>c. sortGenes (?G c)) ?cats)"
    by (simp add: groupAndSort_def sortWithinCategories_def Let_def)
  then have "mset (groupAndSort gd) = mset (concat (map ?G ?cats))"
    by (simp only: mset_concat_sortGenes)
  also have "\<dots> = mset (concat (map (\<lambda>c. filter (\<lambda>g. category g = c) gd) ?cats))"
    by (simp only: G)
  also have "\<dots> = mset gd"
    by (rule mset_concat_filter) simp_all
  finally show ?thesis .
qed

section \<open>The pipeline, case by case\<close>

lemma tiled_hd: "tiled a xs \<Longrightarrow> xs \<noteq> [] \<Longrightarrow> startIndex (hd xs) = a"
  by (cases xs) simp_all

lemma tiled_last:
  "tiled a xs \<Longrightarrow> xs \<noteq> [] \<Longrightarrow> endIndex (last xs) = a + sum_list (map groupCount xs) - 1"
proof (induction xs arbitrary: a)
  case Nil
  then show ?case by simp
next
  case (Cons s ss)
  show ?case
  proof (cases "ss = []")
    case True
    with Cons.prems show ?thesis by simp
  next
    case False
    from Cons.prems have "tiled (a + groupCount s) ss" by simp
    from Cons.IH[OF this False] False show ?thesis by (simp add: add.assoc)
  qed
qed

lemma tiled_adjacent:
  assumes "tiled a xs" "Suc k < length xs"
  shows "startIndex (xs ! Suc k) = endIndex (xs ! k) + 1"
proof -
  from assms(2) have k: "k < length xs" by simp
  have "take (Suc k) xs = take k xs @ [xs ! k]" using k by (rule take_Suc_conv_app_nth)
  then have "sum_list (map groupCount (take (Suc k) xs))
      = sum_list (map groupCount (take k xs)) + groupCount (xs ! k)" by simp
  with tiled_nth[OF assms(1) assms(2)] tiled_nth[OF assms(1) k] show ?thesis by simp
qed

lemma tiled_elem:
  assumes "tiled a xs" "s \<in> set xs"
  shows "startIndex s \<le> endIndex s \<and> groupCount s = endIndex s - startIndex s + 1"
proof -
  from assms(2) obtain k where "k < length xs" "xs ! k = s" by (auto simp: in_set_conv_nth)
  with tiled_nth[OF assms(1), of k] show ?thesis by auto
qed

lemma processExcelFile_unfold:
  "processExcelFile rawData =
     (if rawData = [] then Inl NoDataFound
      else if objectKeys (hd rawData) = [] then Inl NoHeadersFound
      else if filter (test comparisonPattern) (objectKeys (hd rawData)) = []
        then Inl NoComparisonColumns
      else if validateRows (filter (test comparisonPattern) (objectKeys (hd rawData)))
                (filter (test pValuePattern) (objectKeys (hd rawData)))
                (findCategoryCol (objectKeys (hd rawData))) rawData = []
        then Inl NoValidGeneData
      else Inr \<lparr> genes = groupAndSort
                   (validateRows (filter (test comparisonPattern) (objectKeys (hd rawData)))
                     (filter (test pValuePattern) (objectKeys (hd rawData)))
                     (findCategoryCol (objectKeys (hd rawData))) rawData),
                 comparisons = map shortName (filter (test comparisonPattern) (objectKeys (hd rawData))),
                 comparisonColumns = filter (test comparisonPattern) (objectKeys (hd rawData)),
                 pValueColumns = filter (test pValuePattern) (objectKeys (hd rawData)),
                 categoryGroups = buildCategoryGroups (groupAndSort
                   (validateRows (filter (test comparisonPattern) (objectKeys (hd rawData)))
                     (filter (test pValuePattern) (objectKeys (hd rawData)))
                     (findCategoryCol (objectKeys (hd rawData))) rawData)),
                 categories = distinctInOrder (map category (groupAndSort
                   (validateRows (filter (test comparisonPattern) (objectKeys (hd rawData)))
                     (filter (test pValuePattern) (objectKeys (hd rawData)))
                     (findCategoryCol (objectKeys (hd rawData))) rawData))) \<rparr>)"
  by (simp add: processExcelFile_def Let_def)

lemma processExcelFile_InrD:
  assumes "processExcelFile rawData = Inr ds"
  shows "rawData \<noteq> []"
    and "filter (test comparisonPattern) (objectKeys (hd rawData)) \<noteq> []"
    and "validated rawData \<noteq> []"
    and "genes ds = groupAndSort (validated rawData)"
    and "categoryGroups ds = buildCategoryGroups (genes ds)"
    and "comparisonColumns ds = filter (test comparisonPattern) (objectKeys (hd rawData))"
    and "comparisons ds = map shortName (comparisonColumns ds)"
    and "pValueColumns ds = filter (test pValuePattern) (objectKeys (hd rawData))"
  using assms unfolding processExcelFile_unfold validated_def
  by (auto split: if_splits)

lemma genes_truthy:
  assumes "processExcelFile rawData = Inr ds" "g \<in> set (genes ds)"
  shows "truthy (category g)" "truthy (geneId g)"
proof -
  from assms processExcelFile_InrD(4)[OF assms(1)] set_groupAndSort_subset
  have "g \<in> set (validated rawData)" by auto
  then show "truthy (category g)" "truthy (geneId g)"
    unfolding validated_def by (auto dest: validateRows_truthy)
qed

lemma genes_nonempty:
  assumes "processExcelFile rawData = Inr ds"
  shows "genes ds \<noteq> []"
proof -
  note d = processExcelFile_InrD[OF assms]
  have "\<forall>g \<in> set (validated rawData). truthy (category g)"
    unfolding validated_def by (auto dest: validateRows_truthy)
  from groupAndSort_nonempty[OF d(3) this] d(4) show ?thesis by simp
qed

lemma genes_permutation:
  assumes "processExcelFile rawData = Inr ds"
    and "inj_on toPropertyKey (category ` set (validated rawData))"
  shows "mset (genes ds) = mset (validated rawData)"
proof -
  have "\<forall>g \<in> set (validated rawData). truthy (category g)"
    unfolding validated_def by (auto dest: validateRows_truthy)
  from groupAndSort_permutation[OF this assms(2)] processExcelFile_InrD(4)[OF assms(1)]
  show ?thesis by simp
qed

lemma gene_count:
  assumes "processExcelFile rawData = Inr ds"
    and "inj_on toPropertyKey (category ` set (validated rawData))"
  shows "int (length (genes ds))
           = int (length rawData) - int (length (filter (\<lambda>r. \<not> truthy (geneIdOf r)) rawData))"
proof -
  have "length (genes ds) = length (validated rawData)"
    using genes_permutation[OF assms] by (metis size_mset)
  also have "\<dots> = length (filter (\<lambda>r. truthy (geneIdOf r)) rawData)"
    unfolding validated_def by (rule length_validateRows)
  finally have "length (genes ds) + length (filter (\<lambda>r. \<not> truthy (geneIdOf r)) rawData)
      = length rawData"
    using sum_length_filter_compl[of "\<lambda>r. truthy (geneIdOf r)" rawData] by simp
  then show ?thesis by linarith
qed

lemma trim_blank:
  assumes "\<forall>c \<in> set s. isWhiteSpace c"
  shows "trim s = []"
  using assms by (auto simp: trim_def dropWhile_eq_Nil_conv dest: set_dropWhileD)

lemma blank_identifier_dropped:
  assumes "getProp r ''Gene ID'' = Str s" "s \<noteq> []" "\<forall>c \<in> set s. isWhiteSpace c"
  shows "\<not> truthy (geneIdOf r)"
  using assms by (simp add: geneIdOf_def jsOr_def trim_blank)

lemma missing_identifier_dropped:
  assumes "getProp r ''Gene ID'' = Undefined" "getProp r ''GeneID'' = Undefined"
    "getProp r ''gene_id'' = Undefined"
  shows "\<not> truthy (geneIdOf r)"
  using assms by (simp add: geneIdOf_def jsOr_def)

lemma test_comparisonPattern_shape:
  assumes "h = m @ ws @ ''('' @ x @ '')''"
    and "map toUpperChar m = map toUpperChar ''Log2FC''"
    and "\<forall>c \<in> set ws. isWhiteSpace c" and "x \<noteq> []" and "\<forall>c \<in> set x. \<not> isLineTerminator c"
  shows "comparisonPattern h = Some x"
  unfolding comparisonPattern_def assms(1) by (rule matchPattern_shape[OF assms(2-5)])

lemma test_comparisonPattern_iff:
  "test comparisonPattern h \<longleftrightarrow>
     (\<exists>m ws x. h = m @ ws @ ''('' @ x @ '')''
        \<and> map toUpperChar m = map toUpperChar ''Log2FC''
        \<and> (\<forall>c \<in> set ws. isWhiteSpace c) \<and> x \<noteq> [] \<and> (\<forall>c \<in> set x. \<not> isLineTerminator c))"
proof
  assume "test comparisonPattern h"
  then obtain x where "matchPattern ''Log2FC'' h = Some x"
    by (auto simp: test_def comparisonPattern_def)
  from matchPattern_Some[OF this] show
    "\<exists>m ws x. h = m @ ws @ ''('' @ x @ '')''
        \<and> map toUpperChar m = map toUpperChar ''Log2FC''
        \<and> (\<forall>c \<in> set ws. isWhiteSpace c) \<and> x \<noteq> [] \<and> (\<forall>c \<in> set x. \<not> isLineTerminator c)"
    by blast
next
  assume "\<exists>m ws x. h = m @ ws @ ''('' @ x @ '')''
        \<and> map toUpperChar m = map toUpperChar ''Log2FC''
        \<and> (\<forall>c \<in> set ws. isWhiteSpace c) \<and> x \<noteq> [] \<and> (\<forall>c \<in> set x. \<not> isLineTerminator c)"
  then obtain m ws x where "h = m @ ws @ ''('' @ x @ '')''"
      "map toUpperChar m = map toUpperChar ''Log2FC''"
      "\<forall>c \<in> set ws. isWhiteSpace c" "x \<noteq> []" "\<forall>c \<in> set x. \<not> isLineTerminator c"
    by blast
  from test_comparisonPattern_shape[OF this] show "test comparisonPattern h"
    by (simp add: test_def)
qed

lemma validated_empty_iff:
  "validated rawData = [] \<longleftrightarrow> (\<forall>r \<in> set rawData. \<not> truthy (geneIdOf r))"
proof -
  have "validated rawData = [] \<longleftrightarrow> length (validated rawData) = 0" by simp
  also have "\<dots> \<longleftrightarrow> length (filter (\<lambda>r. truthy (geneIdOf r)) rawData) = 0"
    unfolding validated_def by (simp only: length_validateRows)
  also have "\<dots> \<longleftrightarrow> (\<forall>r \<in> set rawData. \<not> truthy (geneIdOf r))"
    by (simp add: filter_empty_conv)
  finally show ?thesis .
qed

lemma processExcelFile_sampleRows: "processExcelFile sampleRows = Inr sampleDataset"
  by code_simp

section \<open>Category segments\<close>

text \<open>
  Claim C1. In every dataset the pipeline builds, the category groups partition the
  indices of the genes: there is at least one group, the first starts at 0, the last
  ends at the last gene, each group starts right after the one before it, \<open>groupCount\<close>
  is the number of indices from \<open>startIndex\<close> to \<open>endIndex\<close> and at least one, the
  counts add up to the number of genes, a group starts at an index \<open>j > 0\<close> exactly when
  the genes at \<open>j - 1\<close> and \<open>j\<close> differ in category, and every gene in the range of a
  group has the category of the group.
\<close>

theorem categoryGroups_partition:
  assumes "processExcelFile rawData = Inr ds"
  shows "categoryGroups ds \<noteq> []
    \<and> startIndex (hd (categoryGroups ds)) = 0
    \<and> endIndex (last (categoryGroups ds)) = int (length (genes ds)) - 1
    \<and> (\<forall>k. Suc k < length (categoryGroups ds) \<longrightarrow>
          startIndex (categoryGroups ds ! Suc k) = endIndex (categoryGroups ds ! k) + 1)
    \<and> (\<forall>s \<in> set (categoryGroups ds).
          startIndex s \<le> endIndex s \<and> groupCount s = endIndex s - startIndex s + 1)
    \<and> sum_list (map groupCount (categoryGroups ds)) = int (length (genes ds))
    \<and> (\<forall>j. 0 < j \<and> j < length (genes ds) \<longrightarrow>
          ((\<exists>s \<in> set (categoryGroups ds). startIndex s = int j)
             \<longleftrightarrow> category (genes ds ! j) \<noteq> category (genes ds ! (j - 1))))
    \<and> (\<forall>s \<in> set (categoryGroups ds). \<forall>j. startIndex s \<le> int j \<and> int j \<le> endIndex s \<longrightarrow>
          category (genes ds ! j) = groupCategory s)"
proof -
  let ?segs = "categoryGroups ds" and ?gs = "genes ds"
  have tr: "\<forall>g \<in> set ?gs. truthy (category g)" using genes_truthy(1)[OF assms] by blast
  have ne: "?gs \<noteq> []" by (rule genes_nonempty[OF assms])
  have segs: "?segs = buildCategoryGroups ?gs" by (rule processExcelFile_InrD(5)[OF assms])
  note p = buildCategoryGroups_props[OF tr ne, folded segs]
  have sum: "sum_list (map groupCount ?segs) = int (length ?gs)" by (rule p(2))
  have nonempty: "?segs \<noteq> []"
  proof
    assume "?segs = []"
    with sum ne show False by simp
  qed
  have c1: "startIndex (hd ?segs) = 0" by (rule tiled_hd[OF p(1) nonempty])
  have c2: "endIndex (last ?segs) = int (length ?gs) - 1"
    using tiled_last[OF p(1) nonempty] sum by simp
  have c3: "\<forall>k. Suc k < length ?segs \<longrightarrow> startIndex (?segs ! Suc k) = endIndex (?segs ! k) + 1"
    using tiled_adjacent[OF p(1)] by blast
  have c4: "\<forall>s \<in> set ?segs. startIndex s \<le> endIndex s \<and> groupCount s = endIndex s - startIndex s + 1"
    using tiled_elem[OF p(1)] by blast
  have c5: "\<forall>j. 0 < j \<and> j < length ?gs \<longrightarrow>
          ((\<exists>s \<in> set ?segs. startIndex s = int j)
             \<longleftrightarrow> category (?gs ! j) \<noteq> category (?gs ! (j - 1)))"
    using p(3) by blast
  have c6: "\<forall>s \<in> set ?segs. \<forall>j. startIndex s \<le> int j \<and> int j \<le> endIndex s \<longrightarrow>
          category (?gs ! j) = groupCategory s"
    using p(4) by blast
  from nonempty c1 c2 c3 c4 sum c5 c6 show ?thesis by blast
qed

theorem categoryGroups_partition_witness:
  "processExcelFile sampleRows = Inr sampleDataset
   \<and> categoryGroups sampleDataset \<noteq> []
   \<and> startIndex (hd (categoryGroups sampleDataset)) = 0
   \<and> endIndex (last (categoryGroups sampleDataset)) = int (length (genes sampleDataset)) - 1
   \<and> sum_list (map groupCount (categoryGroups sampleDataset)) = int (length (genes sampleDataset))"
proof -
  have e: "processExcelFile sampleRows = Inr sampleDataset"
    by (rule processExcelFile_sampleRows)
  from e categoryGroups_partition[OF e] show ?thesis by blast
qed

section \<open>Errors of the pipeline\<close>

text \<open>
  The validating version. When the sheet has rows and no header of its first row matches
  the fold-change pattern, that version ends in a schema error and builds no dataset;
  with at least one header the error is the one about missing comparison columns.
\<close>

theorem no_comparison_columns_schema_error:
  assumes "rawData \<noteq> []" and "\<forall>h \<in> set (objectKeys (hd rawData)). \<not> test comparisonPattern h"
  shows "(\<exists>e. processExcelFile rawData = Inl e \<and> kindOf e = SchemaError)
       \<and> (objectKeys (hd rawData) \<noteq> [] \<longrightarrow> processExcelFile rawData = Inl NoComparisonColumns)"
proof -
  from assms(2) have "filter (test comparisonPattern) (objectKeys (hd rawData)) = []"
    by (simp add: filter_empty_conv)
  with assms(1) show ?thesis by (simp add: processExcelFile_unfold)
qed

theorem no_comparison_columns_schema_error_witness:
  "noComparisonRows \<noteq> []
   \<and> list_all (\<lambda>h. \<not> test comparisonPattern h) (objectKeys (hd noComparisonRows))
   \<and> processExcelFile noComparisonRows = Inl NoComparisonColumns"
proof -
  have ne: "noComparisonRows \<noteq> []" by (simp add: noComparisonRows_def)
  have la: "list_all (\<lambda>h. \<not> test comparisonPattern h) (objectKeys (hd noComparisonRows))"
    by code_simp
  then have no: "\<forall>h \<in> set (objectKeys (hd noComparisonRows)). \<not> test comparisonPattern h"
    by (simp add: list_all_iff)
  have hs: "objectKeys (hd noComparisonRows) \<noteq> []"
    by (simp add: noComparisonRows_def objectKeys_def)
  from no_comparison_columns_schema_error[OF ne no] hs ne la show ?thesis by blast
qed

text \<open>
  Claim C7. Once the schema is detected (the sheet, when it has rows, has a fold-change
  header in its first row), the pipeline ends in a data error exactly when the sheet has
  no rows or every row is dropped for want of an identifier, and in every other case it
  builds a dataset.
\<close>

theorem row_validator_data_error:
  assumes "rawData \<noteq> [] \<longrightarrow> (\<exists>h \<in> set (objectKeys (hd rawData)). test comparisonPattern h)"
  shows "((\<exists>e. processExcelFile rawData = Inl e \<and> kindOf e = DataError)
            \<longleftrightarrow> (rawData = [] \<or> (\<forall>r \<in> set rawData. \<not> truthy (geneIdOf r))))
       \<and> (\<not> (rawData = [] \<or> (\<forall>r \<in> set rawData. \<not> truthy (geneIdOf r)))
            \<longrightarrow> (\<exists>ds. processExcelFile rawData = Inr ds))"
proof (cases "rawData = []")
  case True
  then show ?thesis by (simp add: processExcelFile_unfold)
next
  case False
  with assms obtain h where h: "h \<in> set (objectKeys (hd rawData))" "test comparisonPattern h"
    by blast
  then have hs: "objectKeys (hd rawData) \<noteq> []"
    and cs: "filter (test comparisonPattern) (objectKeys (hd rawData)) \<noteq> []"
    by (auto simp: filter_empty_conv)
  show ?thesis
  proof (cases "validated rawData = []")
    case True
    then have "processExcelFile rawData = Inl NoValidGeneData"
      using False hs cs by (simp add: processExcelFile_unfold validated_def)
    with True show ?thesis by (simp add: validated_empty_iff)
  next
    case nonempty: False
    then have "\<exists>ds. processExcelFile rawData = Inr ds"
      using False hs cs by (simp add: processExcelFile_unfold validated_def)
    with nonempty False show ?thesis by (auto simp: validated_empty_iff)
  qed
qed

theorem row_validator_data_error_witness:
  "list_ex (test comparisonPattern) (objectKeys (hd sampleRows))
   \<and> list_ex (\<lambda>r. truthy (geneIdOf r)) sampleRows
   \<and> processExcelFile sampleRows = Inr sampleDataset
   \<and> list_ex (test comparisonPattern) (objectKeys (hd blankIdRows))
   \<and> list_all (\<lambda>r. \<not> truthy (geneIdOf r)) blankIdRows
   \<and> (\<exists>e. processExcelFile blankIdRows = Inl e \<and> kindOf e = DataError)"
proof -
  have s1: "list_ex (test comparisonPattern) (objectKeys (hd sampleRows))" by code_simp
  have s2: "list_ex (\<lambda>r. truthy (geneIdOf r)) sampleRows" by code_simp
  have b1: "list_ex (test comparisonPattern) (objectKeys (hd blankIdRows))" by code_simp
  have b2: "list_all (\<lambda>r. \<not> truthy (geneIdOf r)) blankIdRows" by code_simp
  have "blankIdRows \<noteq> [] \<longrightarrow> (\<exists>h \<in> set (objectKeys (hd blankIdRows)). test comparisonPattern h)"
    using b1 by (simp add: list_ex_iff)
  from row_validator_data_error[OF this] b2
  have "\<exists>e. processExcelFile blankIdRows = Inl e \<and> kindOf e = DataError"
    by (simp add: list_all_iff)
  with s1 s2 b1 b2 processExcelFile_sampleRows show ?thesis by blast
qed

section \<open>Comparison columns\<close>

text \<open>
  Claim C8. A header of the form marker, white space, opening parenthesis, name,
  closing parenthesis, where the marker is \<open>Log2FC\<close> in any capitalisation, the white
  space may be empty and the name is not empty and has no line terminator, is one of
  the comparison columns, and its display name is the trimmed name. The comparison
  columns are the matching headers in the order of the header sequence, and a dataset
  built from a sheet with these headers carries exactly them and their display names.
\<close>

theorem schema_detector_comparisons:
  assumes "h \<in> set headers" and "h = m @ ws @ ''('' @ x @ '')''"
    and "map toUpperChar m = map toUpperChar ''Log2FC''"
    and "\<forall>c \<in> set ws. isWhiteSpace c" and "x \<noteq> []" and "\<forall>c \<in> set x. \<not> isLineTerminator c"
  shows "(\<exists>i < length (filter (test comparisonPattern) headers).
            filter (test comparisonPattern) headers ! i = h
            \<and> map shortName (filter (test comparisonPattern) headers) ! i = trim x)
       \<and> subseq (filter (test comparisonPattern) headers) headers
       \<and> (\<forall>rawData ds. processExcelFile rawData = Inr ds \<and> objectKeys (hd rawData) = headers \<longrightarrow>
             comparisonColumns ds = filter (test comparisonPattern) headers
             \<and> comparisons ds = map shortName (filter (test comparisonPattern) headers))"
proof -
  let ?comps = "filter (test comparisonPattern) headers"
  have cp: "comparisonPattern h = Some x" by (rule test_comparisonPattern_shape[OF assms(2-6)])
  then have "h \<in> set ?comps" using assms(1) by (simp add: test_def)
  then obtain i where i: "i < length ?comps" "?comps ! i = h" by (meson in_set_conv_nth)
  have "shortName h = trim x" using cp by (simp add: shortName_def)
  with i have "map shortName ?comps ! i = trim x" by simp
  with i have a: "\<exists>i < length ?comps. ?comps ! i = h \<and> map shortName ?comps ! i = trim x" by blast
  have b: "subseq ?comps headers" by simp
  have c: "\<forall>rawData ds. processExcelFile rawData = Inr ds \<and> objectKeys (hd rawData) = headers \<longrightarrow>
             comparisonColumns ds = ?comps \<and> comparisons ds = map shortName ?comps"
    using processExcelFile_InrD(6,7) by metis
  from a b c show ?thesis by blast
qed

theorem schema_detector_comparisons_witness:
  "filter (test comparisonPattern) (objectKeys (hd sampleRows)) = [''log2fc  ( KD vs WT )'']
   \<and> trim '' KD vs WT '' = ''KD vs WT''
   \<and> (\<exists>i < length (filter (test comparisonPattern) (objectKeys (hd sampleRows))).
         filter (test comparisonPattern) (objectKeys (hd sampleRows)) ! i = ''log2fc  ( KD vs WT )''
         \<and> map shortName (filter (test comparisonPattern) (objectKeys (hd sampleRows))) ! i
             = ''KD vs WT'')"
proof -
  have f: "filter (test comparisonPattern) (objectKeys (hd sampleRows)) = [''log2fc  ( KD vs WT )'']"
    by code_simp
  have t: "trim '' KD vs WT '' = ''KD vs WT''" by code_simp
  have h: "''log2fc  ( KD vs WT )'' \<in> set (objectKeys (hd sampleRows))"
    by (simp add: sampleRows_def objectKeys_def)
  have sh: "''log2fc  ( KD vs WT )'' = ''log2fc'' @ ''  '' @ ''('' @ '' KD vs WT '' @ '')''"
    by simp
  have m: "map toUpperChar ''log2fc'' = map toUpperChar ''Log2FC''" by code_simp
  have w: "\<forall>c \<in> set ''  ''. isWhiteSpace c" by (simp add: isWhiteSpace_def)
  have x: "'' KD vs WT '' \<noteq> []" by simp
  have l: "\<forall>c \<in> set '' KD vs WT ''. \<not> isLineTerminator c" by (simp add: isLineTerminator_def)
  from schema_detector_comparisons[OF h sh m w x l] f t show ?thesis by simp
qed

section \<open>The example scenario\<close>

text \<open>
  Claim C3. For the sheet with gene A (fold change 1.2, p-value 0.03, category Lipid)
  and gene B (fold change -0.5, p-value 0.2, category Lipid) the pipeline builds a
  dataset with exactly two genes, B before A, and the single category group Lipid from
  index 0 to index 1 with count 2.
\<close>

theorem example_scenario:
  "processExcelFile exampleRows = Inr exampleDataset
   \<and> genes exampleDataset = [geneB, geneA]
   \<and> length (genes exampleDataset) = 2
   \<and> map geneId (genes exampleDataset) = [Str ''B'', Str ''A'']
   \<and> categoryGroups exampleDataset =
       [\<lparr> groupCategory = Str ''Lipid'', startIndex = 0, endIndex = 1, groupCount = 2 \<rparr>]"
proof -
  have "processExcelFile exampleRows = Inr exampleDataset" by code_simp
  then show ?thesis by (simp add: exampleDataset_def geneA_def geneB_def)
qed

section \<open>Significance tiers\<close>

text \<open>
  Claim C5, as the code has it. For a numeric p-value \<open>p\<close> the circle of a cell is
  black with radius 5 when \<open>p < 0.01\<close>, black with radius 3 when \<open>0.01 \<le> p < 0.05\<close>,
  grey with radius 2 when \<open>0.05 \<le> p < 0.1\<close>, and absent when \<open>p \<ge> 0.1\<close>; no circle
  is drawn for \<open>NaN\<close> or for a missing entry of \<open>gene.pValues\<close>. So 0.05 is the
  first p-value of the grey tier, although \<open>getSizeForPValue\<close> on its own gives it the
  size 0.
\<close>

theorem significance_tiers:
  "significanceCircle (Val (Fin p)) =
     (if p < 0.01 then Some (5, ''black'')
      else if p < 0.05 then Some (3, ''black'')
      else if p < 0.1 then Some (2, ''#888'')
      else None)
   \<and> significanceCircle (Val NaN) = None
   \<and> significanceCircle Undef = None"
  by (simp add: significanceCircle_def isSignificant_def isMarginal_def circleRadius_def
        getSizeForPValue_def numGreaterEq_def)

theorem significance_tiers_witness:
  "significanceCircle (Val (Fin 0.049)) = Some (3, ''black'')
   \<and> significanceCircle (Val (Fin 0.009)) = Some (5, ''black'')
   \<and> significanceCircle (Val (Fin 0.07)) = Some (2, ''#888'')
   \<and> significanceCircle (Val (Fin 0.1)) = None"
  using significance_tiers[of "0.049"] significance_tiers[of "0.009"]
    significance_tiers[of "0.07"] significance_tiers[of "0.1"]
  by simp

text \<open>
  At the p-value 0.05 a circle is drawn: grey, with radius 2. The size that
  \<open>getSizeForPValue\<close> gives to 0.05 is 0, but \<open>renderHeatmap\<close> asks it only for
  p-values below 0.05.
\<close>

theorem significance_at_005_visible:
  "significanceCircle (Val (Fin 0.05)) = Some (2, ''#888'')
   \<and> getSizeForPValue (Val (Fin 0.05)) = 0"
  by (simp add: significanceCircle_def isSignificant_def isMarginal_def circleRadius_def
        getSizeForPValue_def numGreaterEq_def)

lemma significance_null:
  "significanceCircle Nul = Some (5, ''black'') \<and> getSizeForPValue Nul = 5"
  by (simp add: significanceCircle_def isSignificant_def isMarginal_def circleRadius_def
        getSizeForPValue_def numGreaterEq_def)

section \<open>Categories that share a property key\<close>

text \<open>
  Claim C10 asks that grouping and sorting return a permutation of the validated genes.
  \<open>groupAndSort_permutation\<close> shows this whenever distinct categories have distinct
  property keys, as text categories do. On the sheet \<open>mixedCategoryRows\<close> the
  categories are the number 5 and the text \<open>5\<close>: both are members of the set of
  categories, both have the key \<open>5\<close> in \<open>groupedByCategory\<close>, the second group
  overwrites the first and is appended twice. Gene P is lost and gene Q appears twice.
\<close>

theorem grouper_drops_and_duplicates:
  "validated mixedCategoryRows = [geneP, geneQ]
   \<and> groupAndSort [geneP, geneQ] = [geneQ, geneQ]
   \<and> processExcelFile mixedCategoryRows
       = Inr \<lparr> genes = [geneQ, geneQ],
               comparisons = [''X''],
               comparisonColumns = [''Log2FC (X)''],
               pValueColumns = [],
               categoryGroups = [\<lparr> groupCategory = Str ''5'', startIndex = 0,
                                   endIndex = 1, groupCount = 2 \<rparr>],
               categories = [Str ''5''] \<rparr>
   \<and> mset [geneQ, geneQ] \<noteq> mset [geneP, geneQ]"
proof -
  have a: "validated mixedCategoryRows = [geneP, geneQ]" by code_simp
  have b: "groupAndSort [geneP, geneQ] = [geneQ, geneQ]" by code_simp
  have c: "processExcelFile mixedCategoryRows
       = Inr \<lparr> genes = [geneQ, geneQ],
               comparisons = [''X''],
               comparisonColumns = [''Log2FC (X)''],
               pValueColumns = [],
               categoryGroups = [\<lparr> groupCategory = Str ''5'', startIndex = 0,
                                   endIndex = 1, groupCount = 2 \<rparr>],
               categories = [Str ''5''] \<rparr>" by code_simp
  have d: "mset [geneQ, geneQ] \<noteq> mset [geneP, geneQ]"
    by (simp add: geneP_def geneQ_def)
  from a b c d show ?thesis by blast
qed

text \<open>
  Claim C6 asks that the dataset has as many genes as the sheet has rows, less the rows
  dropped for a blank identifier. Rows with a blank or missing identifier are dropped
  (\<open>blank_identifier_dropped\<close>, \<open>missing_identifier_dropped\<close>) and the count is as
  claimed whenever distinct categories have distinct property keys (\<open>gene_count\<close>). On
  the sheet \<open>clusterRows\<close> no row is dropped, and the three rows give a dataset of two
  genes, both of them the third row.
\<close>

theorem gene_count_with_colliding_categories:
  "list_all (\<lambda>r. truthy (geneIdOf r)) clusterRows
   \<and> length clusterRows = 3
   \<and> length (validated clusterRows) = 3
   \<and> processExcelFile clusterRows
       = Inr \<lparr> genes = [clusterGene3, clusterGene3],
               comparisons = [''X''],
               comparisonColumns = [''Log2FC (X)''],
               pValueColumns = [],
               categoryGroups = [\<lparr> groupCategory = Str ''5'', startIndex = 0,
                                   endIndex = 1, groupCount = 2 \<rparr>],
               categories = [Str ''5''] \<rparr>"
proof -
  have a: "list_all (\<lambda>r. truthy (geneIdOf r)) clusterRows" by code_simp
  have b: "length clusterRows = 3" by (simp add: clusterRows_def)
  have c: "length (validated clusterRows) = 3" by code_simp
  have d: "processExcelFile clusterRows
       = Inr \<lparr> genes = [clusterGene3, clusterGene3],
               comparisons = [''X''],
               comparisonColumns = [''Log2FC (X)''],
               pValueColumns = [],
               categoryGroups = [\<lparr> groupCategory = Str ''5'', startIndex = 0,
                                   endIndex = 1, groupCount = 2 \<rparr>],
               categories = [Str ''5''] \<rparr>" by code_simp
  from a b c d show ?thesis by blast
qed

section \<open>Export and import\<close>

text \<open>
  Claim C4 asks that the exported rows, read by the pipeline again, give an equivalent
  dataset. The export writes the p-value columns under headers \<open>P-value (name)\<close>, and
  the pipeline looks for \<open>P value (name)\<close>. For the dataset of the example scenario
  the exported rows are read back with the same genes in the same order, with the same
  fold changes and categories, but with no p-value column and no p-value for any gene.
\<close>

theorem export_reimport_loses_pValues:
  "processExcelFile exampleRows = Inr exampleDataset
   \<and> fst (downloadProcessedData exampleDataset)
       = [''Gene ID'', ''Category'', ''Log2FC (Ctrl vs KD)'', ''P-value (Ctrl vs KD)'']
   \<and> processExcelFile (snd (downloadProcessedData exampleDataset))
       = Inr \<lparr> genes = [geneB \<lparr> pValues := [] \<rparr>, geneA \<lparr> pValues := [] \<rparr>],
               comparisons = [''Ctrl vs KD''],
               comparisonColumns = [''Log2FC (Ctrl vs KD)''],
               pValueColumns = [],
               categoryGroups = [\<lparr> groupCategory = Str ''Lipid'', startIndex = 0,
                                   endIndex = 1, groupCount = 2 \<rparr>],
               categories = [Str ''Lipid''] \<rparr>
   \<and> map pValues (genes exampleDataset) = [[Val (Fin 0.2)], [Val (Fin 0.03)]]"
proof -
  have a: "processExcelFile exampleRows = Inr exampleDataset" by code_simp
  have b: "fst (downloadProcessedData exampleDataset)
       = [''Gene ID'', ''Category'', ''Log2FC (Ctrl vs KD)'', ''P-value (Ctrl vs KD)'']"
    by code_simp
  have c: "processExcelFile (snd (downloadProcessedData exampleDataset))
       = Inr \<lparr> genes = [geneB \<lparr> pValues := [] \<rparr>, geneA \<lparr> pValues := [] \<rparr>],
               comparisons = [''Ctrl vs KD''],
               comparisonColumns = [''Log2FC (Ctrl vs KD)''],
               pValueColumns = [],
               categoryGroups = [\<lparr> groupCategory = Str ''Lipid'', startIndex = 0,
                                   endIndex = 1, groupCount = 2 \<rparr>],
               categories = [Str ''Lipid''] \<rparr>" by code_simp
  have d: "map pValues (genes exampleDataset) = [[Val (Fin 0.2)], [Val (Fin 0.03)]]"
    by (simp add: exampleDataset_def geneA_def geneB_def)
  from a b c d show ?thesis by blast
qed

section \<open>The copy without validation and the schema error\<close>

lemma keys_fold_rawGroupStep:
  "fst ` set (fold (rawGroupStep gd) cats obj) = fst ` set obj \<union> toPropertyKey ` set cats"
  by (induction cats arbitrary: obj) (auto simp: rawGroupStep_def keys_setProp)

lemma rawSortWithinCategories_total:
  "toPropertyKey ` set cs \<subseteq> fst ` set grouped \<Longrightarrow>
     \<exists>sorted. rawSortWithinCategories cs grouped out = Inr sorted"
proof (induction cs arbitrary: grouped out)
  case Nil
  then show ?case by simp
next
  case (Cons c cs)
  from Cons.prems have "toPropertyKey c \<in> fst ` set grouped" by simp
  then obtain v where v: "map_of grouped (toPropertyKey c) = Some v"
    by (metis map_of_eq_None_iff not_Some_eq)
  have "toPropertyKey ` set cs \<subseteq> fst ` set (setProp grouped (toPropertyKey c) (rawSortGenes v))"
    using Cons.prems by (auto simp: keys_setProp)
  from Cons.IH[OF this] v show ?case by simp
qed

lemma rawProcessExcelFile_never_fails:
  "\<exists>ds. rawProcessExcelFile rawData = Inr ds
        \<and> rawComparisonColumns ds
            = filter (test comparisonPattern) (case rawData of [] \<Rightarrow> [] | first # _ \<Rightarrow> objectKeys first)
        \<and> rawComparisons ds = map shortName (rawComparisonColumns ds)"
proof -
  let ?headers = "case rawData of [] \<Rightarrow> [] | first # _ \<Rightarrow> objectKeys first"
  let ?gd = "map (rawRowGene (filter (test comparisonPattern) ?headers)
                   (filter (test pValuePattern) ?headers) (findCategoryCol ?headers)) rawData"
  let ?cats = "distinctInOrder (map rawCategory ?gd)"
  have "toPropertyKey ` set ?cats \<subseteq> fst ` set (fold (rawGroupStep ?gd) ?cats [])"
    by (simp add: keys_fold_rawGroupStep)
  from rawSortWithinCategories_total[OF this, of "[]"]
  obtain sorted where "rawSortWithinCategories ?cats (fold (rawGroupStep ?gd) ?cats []) [] = Inr sorted"
    by blast
  then show ?thesis by (simp add: rawProcessExcelFile_def Let_def)
qed

text \<open>
  Claim C2 asks that a sheet without a fold-change header ends in a schema error and
  builds no dataset. The validating version does so
  (\<open>no_comparison_columns_schema_error\<close>). The copy without validation, which is the
  one the application imports, never raises (\<open>rawProcessExcelFile_never_fails\<close>):
  on the sheet \<open>noComparisonRows\<close>, none of whose headers matches, it builds a
  dataset with one gene and no comparison at all.
\<close>

theorem unvalidated_copy_builds_dataset_without_comparisons:
  "list_all (\<lambda>h. \<not> test comparisonPattern h) (objectKeys (hd noComparisonRows))
   \<and> rawProcessExcelFile noComparisonRows
       = Inr \<lparr> rawGenes = [\<lparr> rawId = Str ''A'', rawCategory = Str ''Uncategorized'',
                              rawValues = [], rawPValues = [] \<rparr>],
               rawComparisons = [],
               rawComparisonColumns = [],
               rawPValueColumns = [],
               rawCategoryGroups = [\<lparr> groupCategory = Str ''Uncategorized'', startIndex = 0,
                                      endIndex = 0, groupCount = 1 \<rparr>] \<rparr>
   \<and> processExcelFile noComparisonRows = Inl NoComparisonColumns"
proof -
  have a: "list_all (\<lambda>h. \<not> test comparisonPattern h) (objectKeys (hd noComparisonRows))"
    by code_simp
  have b: "rawProcessExcelFile noComparisonRows
       = Inr \<lparr> rawGenes = [\<lparr> rawId = Str ''A'', rawCategory = Str ''Uncategorized'',
                              rawValues = [], rawPValues = [] \<rparr>],
               rawComparisons = [],
               rawComparisonColumns = [],
               rawPValueColumns = [],
               rawCategoryGroups = [\<lparr> groupCategory = Str ''Uncategorized'', startIndex = 0,
                                      endIndex = 0, groupCount = 1 \<rparr>] \<rparr>"
    by code_simp
  have c: "processExcelFile noComparisonRows = Inl NoComparisonColumns" by code_simp
  from a b c show ?thesis by blast
qed

section \<open>The quantile colour scale\<close>

























text \<open>
  An input that is not a number, such as the \<open>NaN\<close> that \<open>parseFloat\<close> gives for a
  cell with other text, gets no colour in quantile mode.
\<close>

lemma quantile_not_a_number:
  "colorScaleOn Quantile (Some vals) scheme (Num NaN) = (NoColor, rev scheme)"
  by (simp add: colorScaleOn_def scaleQuantile_def)

end
